theory Spec2Isabelle
  imports Complex_Main "HOL-Library.Multiset"
begin

section \<open>Values of the notebook's Python\<close>

text \<open>
  The routine \<open>compute_aic\<close> of the notebook "Optimizing Mapper parameters" is embedded
  here. Python exceptions are values of \<open>error\<close>; the routine itself raises none of its
  own, so the only errors are the ones the interpreter and numpy raise.

  numpy's float64 is idealised: a finite float is an exact real number (no rounding, no
  overflow), and the three non-finite values that numpy produces instead of raising
  (division by zero, logarithm of zero or of a negative number, mean of an empty slice)
  are kept as \<open>PInf\<close>, \<open>NInf\<close> and \<open>NaN\<close>. Python's and numpy's int64 integers are
  \<open>int\<close>: an identifier beyond the int64 range, which the code refuses when it stores the
  label, is not modelled.

  Statements that give a value as a real-number formula, or that say two scores are
  equal, are therefore statements of exact arithmetic. The other statements are about
  which entries are read, which operation is applied to which operand, what
  \<open>np.argmin\<close> picks among the values it is given, and what raises; they do not depend on
  how a finite result is rounded.
\<close>

datatype error = IndexError | ValueError

datatype fl = Fin real | PInf | NInf | NaN

fun is_nan :: "fl \<Rightarrow> bool" where
  "is_nan NaN = True"
| "is_nan _ = False"

fun is_fin :: "fl \<Rightarrow> bool" where
  "is_fin (Fin _) = True"
| "is_fin _ = False"

fun fl_neg :: "fl \<Rightarrow> fl" where
  "fl_neg (Fin a) = Fin (- a)"
| "fl_neg PInf = NInf"
| "fl_neg NInf = PInf"
| "fl_neg NaN = NaN"

fun fl_add :: "fl \<Rightarrow> fl \<Rightarrow> fl" where
  "fl_add (Fin a) (Fin b) = Fin (a + b)"
| "fl_add NaN _ = NaN"
| "fl_add _ NaN = NaN"
| "fl_add PInf NInf = NaN"
| "fl_add NInf PInf = NaN"
| "fl_add PInf _ = PInf"
| "fl_add _ PInf = PInf"
| "fl_add NInf _ = NInf"
| "fl_add _ NInf = NInf"

definition fl_sub :: "fl \<Rightarrow> fl \<Rightarrow> fl" where
  "fl_sub x y = fl_add x (fl_neg y)"

text \<open>The infinity with the sign of a non-zero real.\<close>

definition inf_of_sign :: "real \<Rightarrow> fl" where
  "inf_of_sign a = (if a = 0 then NaN else if 0 < a then PInf else NInf)"

fun fl_mul :: "fl \<Rightarrow> fl \<Rightarrow> fl" where
  "fl_mul (Fin a) (Fin b) = Fin (a * b)"
| "fl_mul NaN _ = NaN"
| "fl_mul _ NaN = NaN"
| "fl_mul (Fin a) PInf = inf_of_sign a"
| "fl_mul (Fin a) NInf = inf_of_sign (- a)"
| "fl_mul PInf (Fin b) = inf_of_sign b"
| "fl_mul NInf (Fin b) = inf_of_sign (- b)"
| "fl_mul PInf PInf = PInf"
| "fl_mul NInf NInf = PInf"
| "fl_mul PInf NInf = NInf"
| "fl_mul NInf PInf = NInf"

text \<open>
  A float divided by a Python integer. numpy does not raise on a zero divisor: it warns and
  gives an infinity, or NaN for \<open>0 / 0\<close>.
\<close>

fun fl_div_int :: "fl \<Rightarrow> int \<Rightarrow> fl" where
  "fl_div_int (Fin a) n = (if n = 0 then inf_of_sign a else Fin (a / of_int n))"
| "fl_div_int PInf n = (if 0 \<le> n then PInf else NInf)"
| "fl_div_int NInf n = (if 0 \<le> n then NInf else PInf)"
| "fl_div_int NaN n = NaN"

fun fl_log :: "fl \<Rightarrow> fl" where
  "fl_log (Fin a) = (if 0 < a then Fin (ln a) else if a = 0 then NInf else NaN)"
| "fl_log PInf = PInf"
| "fl_log NInf = NaN"
| "fl_log NaN = NaN"

fun fl_sqrt :: "fl \<Rightarrow> fl" where
  "fl_sqrt (Fin a) = (if 0 \<le> a then Fin (sqrt a) else NaN)"
| "fl_sqrt PInf = PInf"
| "fl_sqrt NInf = NaN"
| "fl_sqrt NaN = NaN"

fun fl_less :: "fl \<Rightarrow> fl \<Rightarrow> bool" where
  "fl_less (Fin a) (Fin b) = (a < b)"
| "fl_less NInf (Fin b) = True"
| "fl_less NInf PInf = True"
| "fl_less (Fin a) PInf = True"
| "fl_less _ _ = False"

primrec fl_sum :: "fl list \<Rightarrow> fl" where
  "fl_sum [] = Fin 0"
| "fl_sum (x # xs) = fl_add x (fl_sum xs)"

text \<open>\<open>np.linalg.norm\<close> of a vector: the square root of the sum of the squares.\<close>

definition fl_norm :: "fl list \<Rightarrow> fl" where
  "fl_norm v = fl_sqrt (fl_sum (map (\<lambda>z. fl_mul z z) v))"

text \<open>
  \<open>np.argmin\<close>: the position of the first occurrence of the least value; a NaN counts as
  least, so the first NaN wins; an empty sequence raises ValueError.
\<close>

fun argmin_from :: "nat \<Rightarrow> fl \<Rightarrow> nat \<Rightarrow> fl list \<Rightarrow> nat" where
  "argmin_from bi bv j [] = bi"
| "argmin_from bi bv j (x # xs) =
     (if is_nan bv then bi
      else if is_nan x \<or> fl_less x bv then argmin_from j x (Suc j) xs
      else argmin_from bi bv (Suc j) xs)"

definition argmin :: "fl list \<Rightarrow> error + nat" where
  "argmin xs = (case xs of [] \<Rightarrow> Inl ValueError | x # r \<Rightarrow> Inr (argmin_from 0 x 1 r))"

text \<open>
  Indexing a Python list or the first axis of a numpy array of length \<open>n\<close> with an integer:
  a negative index counts from the end, anything outside \<open>-n \<le> i < n\<close> raises IndexError.
\<close>

definition py_pos :: "nat \<Rightarrow> int \<Rightarrow> nat option" where
  "py_pos n i =
     (if 0 \<le> i \<and> i < int n then Some (nat i)
      else if - int n \<le> i \<and> i < 0 then Some (nat (int n + i))
      else None)"

definition py_index :: "'a list \<Rightarrow> int \<Rightarrow> error + 'a" where
  "py_index xs i = (case py_pos (length xs) i of None \<Rightarrow> Inl IndexError | Some p \<Rightarrow> Inr (xs ! p))"

text \<open>A comprehension or loop whose body may raise: the first exception ends it.\<close>

fun mapM :: "('a \<Rightarrow> error + 'b) \<Rightarrow> 'a list \<Rightarrow> error + 'b list" where
  "mapM f [] = Inr []"
| "mapM f (x # xs) =
     (case f x of Inl e \<Rightarrow> Inl e
      | Inr y \<Rightarrow> (case mapM f xs of Inl e \<Rightarrow> Inl e | Inr ys \<Rightarrow> Inr (y # ys)))"

fun foldM :: "('s \<Rightarrow> 'a \<Rightarrow> error + 's) \<Rightarrow> 's \<Rightarrow> 'a list \<Rightarrow> error + 's" where
  "foldM f s [] = Inr s"
| "foldM f s (x # xs) = (case f s x of Inl e \<Rightarrow> Inl e | Inr s' \<Rightarrow> foldM f s' xs)"

text \<open>
  The data matrix \<open>X\<close>: a two-dimensional numpy array of shape \<open>(N, d)\<close>. \<open>N\<close> is the
  number of rows; \<open>d\<close> is kept beside the rows because an array with no row still has a
  width.
\<close>

record ndarray =
  ncols :: nat
  rows :: "real list list"

definition nrows :: "ndarray \<Rightarrow> nat" where
  "nrows X = length (rows X)"

definition rectangular :: "ndarray \<Rightarrow> bool" where
  "rectangular X = (\<forall>r \<in> set (rows X). length r = ncols X)"

section \<open>compute_aic\<close>

subsection \<open>1. Centroids of all Mapper nodes\<close>

text \<open>
  \<open>np.mean(rs, axis=0)\<close> for the selected rows \<open>rs\<close>: per column, the sum divided by the
  number of rows; with no row selected numpy gives NaN in every column.
\<close>

definition mean_axis0 :: "nat \<Rightarrow> real list list \<Rightarrow> fl list" where
  "mean_axis0 d rs = map (\<lambda>j. fl_div_int (Fin (\<Sum>r\<leftarrow>rs. r ! j)) (int (length rs))) [0..<d]"

definition node_centroid :: "ndarray \<Rightarrow> int list \<Rightarrow> error + fl list" where
  "node_centroid X node_elements =
     (case mapM (py_index (rows X)) node_elements of
        Inl e \<Rightarrow> Inl e
      | Inr rs \<Rightarrow> Inr (mean_axis0 (ncols X) rs))"

definition centroids_of :: "ndarray \<Rightarrow> int list list \<Rightarrow> error + fl list list" where
  "centroids_of X nodes_elements = mapM (node_centroid X) nodes_elements"

subsection \<open>2.1 Hard clustering by least distance to the possible centroids\<close>

definition point_dist :: "ndarray \<Rightarrow> fl list list \<Rightarrow> nat \<Rightarrow> int \<Rightarrow> error + fl" where
  "point_dist X centroids i node_id =
     (case py_index centroids node_id of
        Inl e \<Rightarrow> Inl e
      | Inr c \<Rightarrow> Inr (fl_norm (map2 (\<lambda>x m. fl_sub (Fin x) m) (rows X ! i) c)))"

text \<open>The \<open>else\<close> branch of the loop body: the candidate of least distance.\<close>

definition nearest :: "ndarray \<Rightarrow> fl list list \<Rightarrow> nat \<Rightarrow> int list \<Rightarrow> error + int" where
  "nearest X centroids i possible_nodes =
     (case mapM (point_dist X centroids i) possible_nodes of
        Inl e \<Rightarrow> Inl e
      | Inr ds \<Rightarrow>
          (case argmin ds of
             Inl e \<Rightarrow> Inl e
           | Inr rel_idx \<Rightarrow> Inr (possible_nodes ! rel_idx)))"

definition label_of :: "ndarray \<Rightarrow> fl list list \<Rightarrow> int list list \<Rightarrow> nat \<Rightarrow> error + int" where
  "label_of X centroids X_idx_to_node_idxs i =
     (case py_index X_idx_to_node_idxs (int i) of
        Inl e \<Rightarrow> Inl e
      | Inr possible_nodes \<Rightarrow>
          if length possible_nodes = 1 then Inr (possible_nodes ! 0)
          else nearest X centroids i possible_nodes)"

definition labels_unique :: "ndarray \<Rightarrow> fl list list \<Rightarrow> int list list \<Rightarrow> error + int list" where
  "labels_unique X centroids X_idx_to_node_idxs =
     mapM (label_of X centroids X_idx_to_node_idxs) [0..<nrows X]"

subsection \<open>2.2 List of clusters\<close>

text \<open>
  One pass of the loop over \<open>enumerate(labels_unique)\<close>: the list grows to \<open>label + 1\<close>
  entries when it is shorter, then \<open>clusters[label].append(i)\<close>, which is Python list
  indexing (a negative label counts from the end of the list as it is then).
\<close>

fun add_to_cluster :: "nat list list \<Rightarrow> nat \<times> int \<Rightarrow> error + nat list list" where
  "add_to_cluster clusters (i, label) =
     (let n_clusters_now = int (length clusters);
          to_add = label + 1 - n_clusters_now;
          grown = (if 0 < to_add then clusters @ replicate (nat to_add) [] else clusters)
      in case py_pos (length grown) label of
           None \<Rightarrow> Inl IndexError
         | Some q \<Rightarrow> Inr (grown[q := grown ! q @ [i]]))"

definition build_clusters :: "int list \<Rightarrow> error + nat list list" where
  "build_clusters labels =
     (case foldM add_to_cluster [] (enumerate 0 labels) of
        Inl e \<Rightarrow> Inl e
      | Inr clusters \<Rightarrow> Inr (filter (\<lambda>c. c \<noteq> []) clusters))"

subsection \<open>3. AIC of the hard clustering\<close>

text \<open>\<open>np.sum((X - sel)**2)\<close> for the rows \<open>sel = centroids[labels_unique]\<close>.\<close>

definition sq_dev :: "ndarray \<Rightarrow> fl list list \<Rightarrow> fl" where
  "sq_dev X sel =
     fl_sum (concat (map2 (\<lambda>x c. map2 (\<lambda>a m. fl_mul (fl_sub (Fin a) m) (fl_sub (Fin a) m)) x c)
                          (rows X) sel))"

text \<open>
  \<open>sigma_sq\<close>. The table \<open>centroids\<close> is indexed with the whole label array. When the
  table is empty it is a one-dimensional array of length 0, the selection (possible only
  with no label at all) has shape \<open>(0,)\<close>, and subtracting it from an array of shape
  \<open>(0, d)\<close> with \<open>d > 1\<close> is a broadcasting ValueError.
\<close>

definition sigma_sq_of :: "ndarray \<Rightarrow> fl list list \<Rightarrow> int list \<Rightarrow> nat \<Rightarrow> error + fl" where
  "sigma_sq_of X centroids labels k =
     (case mapM (py_index centroids) labels of
        Inl e \<Rightarrow> Inl e
      | Inr sel \<Rightarrow>
          if centroids = [] \<and> 1 < ncols X then Inl ValueError
          else Inr (fl_div_int (sq_dev X sel) (int (ncols X) * (int (nrows X) - int k))))"

definition aic_value :: "nat \<Rightarrow> nat \<Rightarrow> nat list \<Rightarrow> fl \<Rightarrow> fl" where
  "aic_value N d cluster_sizes sigma_sq =
     (let k = length cluster_sizes;
          aic0 = fl_mul (Fin 2)
                   (fl_sum (map (\<lambda>s. fl_mul (Fin (real s)) (fl_log (Fin (real s)))) cluster_sizes));
          aic1 = fl_sub aic0 (fl_mul (Fin (2 * real N)) (fl_log (Fin (real N))));
          aic2 = fl_sub aic1 (fl_mul (Fin (real N * real d))
                                     (fl_log (fl_mul (Fin (2 * pi)) sigma_sq)));
          aic3 = fl_sub aic2 (Fin (real d * (real N - real k)));
          aic4 = fl_sub aic3 (Fin (2 * real k * (real d + 1)))
      in aic4)"

text \<open>Steps 2.2 and 3: the score of a label array against the centroid table.\<close>

definition score :: "ndarray \<Rightarrow> fl list list \<Rightarrow> int list \<Rightarrow> error + fl" where
  "score X centroids labels =
     (case build_clusters labels of
        Inl e \<Rightarrow> Inl e
      | Inr clusters \<Rightarrow>
          (case sigma_sq_of X centroids labels (length clusters) of
             Inl e \<Rightarrow> Inl e
           | Inr sigma_sq \<Rightarrow>
               Inr (aic_value (nrows X) (ncols X) (map length clusters) sigma_sq)))"

text \<open>Steps 1 and 2.1: the hard labels.\<close>

definition resolve :: "ndarray \<Rightarrow> int list list \<Rightarrow> int list list \<Rightarrow> error + int list" where
  "resolve X nodes_elements X_idx_to_node_idxs =
     (case centroids_of X nodes_elements of
        Inl e \<Rightarrow> Inl e
      | Inr centroids \<Rightarrow> labels_unique X centroids X_idx_to_node_idxs)"

definition compute_aic :: "ndarray \<Rightarrow> int list list \<Rightarrow> int list list \<Rightarrow> error + fl" where
  "compute_aic X nodes_elements X_idx_to_node_idxs =
     (case centroids_of X nodes_elements of
        Inl e \<Rightarrow> Inl e
      | Inr centroids \<Rightarrow>
          (case labels_unique X centroids X_idx_to_node_idxs of
             Inl e \<Rightarrow> Inl e
           | Inr labels \<Rightarrow> score X centroids labels))"

section \<open>Inputs and reference quantities\<close>

text \<open>
  The inputs the routine is meant for: at least one point and one feature, one candidate
  list per point, no candidate list empty, every candidate a position of a non-empty
  node of \<open>nodes_elements\<close>, and every node element a row of \<open>X\<close>.
\<close>

definition valid_input :: "ndarray \<Rightarrow> int list list \<Rightarrow> int list list \<Rightarrow> bool" where
  "valid_input X nodes_elements X_idx_to_node_idxs =
     (1 \<le> nrows X \<and> 1 \<le> ncols X \<and> rectangular X \<and>
      length X_idx_to_node_idxs = nrows X \<and>
      (\<forall>ne \<in> set nodes_elements. \<forall>e \<in> set ne. 0 \<le> e \<and> e < int (nrows X)) \<and>
      (\<forall>c \<in> set X_idx_to_node_idxs.
          c \<noteq> [] \<and>
          (\<forall>node_id \<in> set c. 0 \<le> node_id \<and> node_id < int (length nodes_elements) \<and>
                               nodes_elements ! nat node_id \<noteq> [])))"

text \<open>
  Real-valued reference quantities, written as the mathematics reads: the mean of the rows
  listed in \<open>idxs\<close>, and the squared Euclidean distance of two vectors.
\<close>

definition centroid :: "ndarray \<Rightarrow> int list \<Rightarrow> real list" where
  "centroid X idxs =
     map (\<lambda>j. (\<Sum>e\<leftarrow>idxs. rows X ! nat e ! j) / real (length idxs)) [0..<ncols X]"

definition sq_dist :: "real list \<Rightarrow> real list \<Rightarrow> real" where
  "sq_dist x c = (\<Sum>(a, m)\<leftarrow>zip x c. (a - m) * (a - m))"

definition euclid_dist :: "real list \<Rightarrow> real list \<Rightarrow> real" where
  "euclid_dist x c = sqrt (sq_dist x c)"

text \<open>The distance of point \<open>i\<close> to the centroid of the Mapper node \<open>node_id\<close>.\<close>

definition node_dist :: "ndarray \<Rightarrow> int list list \<Rightarrow> nat \<Rightarrow> int \<Rightarrow> real" where
  "node_dist X nodes_elements i node_id =
     euclid_dist (rows X ! i) (centroid X (nodes_elements ! nat node_id))"

text \<open>
  The pooled variance as the specification words it: every point against the mean of the
  points of its own hard cluster, over \<open>d * (N - k)\<close>.
\<close>

definition spec_sigma_sq :: "ndarray \<Rightarrow> nat list list \<Rightarrow> real" where
  "spec_sigma_sq X clusters =
     (\<Sum>c\<leftarrow>clusters. \<Sum>i\<leftarrow>c. sq_dist (rows X ! i) (centroid X (map int c)))
       / (real (ncols X) * (real (nrows X) - real (length clusters)))"

text \<open>The general rule applied to every point, with no shortcut for a single candidate.\<close>

definition label_general :: "ndarray \<Rightarrow> fl list list \<Rightarrow> int list list \<Rightarrow> nat \<Rightarrow> error + int" where
  "label_general X centroids X_idx_to_node_idxs i =
     (case py_index X_idx_to_node_idxs (int i) of
        Inl e \<Rightarrow> Inl e
      | Inr possible_nodes \<Rightarrow> nearest X centroids i possible_nodes)"

text \<open>The inputs of the two concrete scenarios of the specification, and of the examples below.\<close>

definition X_flat :: ndarray where
  "X_flat = \<lparr>ncols = 1, rows = [[0], [0], [10], [10]]\<rparr>"

definition X_line :: ndarray where
  "X_line = \<lparr>ncols = 1, rows = [[0], [1], [9], [10]]\<rparr>"

definition X_three :: ndarray where
  "X_three = \<lparr>ncols = 1, rows = [[0], [1], [2]]\<rparr>"

definition nodes_pairs :: "int list list" where
  "nodes_pairs = [[0, 1], [2, 3]]"

definition cells_pairs :: "int list list" where
  "cells_pairs = [[0], [0], [1], [1]]"

definition nodes_three :: "int list list" where
  "nodes_three = [[0, 1], [1, 2]]"

definition cells_three :: "int list list" where
  "cells_three = [[0], [0, 1], [1]]"

lemmas scenario_defs =
  X_flat_def X_line_def X_three_def nodes_pairs_def cells_pairs_def nodes_three_def
  cells_three_def

lemmas compute_aic_unfold =
  nrows_def rectangular_def centroids_of_def node_centroid_def mean_axis0_def py_index_def
  py_pos_def labels_unique_def label_of_def label_general_def nearest_def point_dist_def
  fl_norm_def argmin_def build_clusters_def enumerate_eq_zip
  sigma_sq_of_def sq_dev_def score_def compute_aic_def resolve_def aic_value_def fl_sub_def
  inf_of_sign_def upt_rec Let_def

section \<open>Auxiliary facts\<close>

subsection \<open>Failing comprehensions, indexing, argmin\<close>

lemma mapM_Inr_length: "mapM f xs = Inr ys \<Longrightarrow> length ys = length xs"
  by (induction xs arbitrary: ys) (auto split: sum.splits)

lemma mapM_Inr_nth: "mapM f xs = Inr ys \<Longrightarrow> i < length xs \<Longrightarrow> f (xs ! i) = Inr (ys ! i)"
proof (induction xs arbitrary: ys i)
  case Nil
  then show ?case by simp
next
  case (Cons x xs)
  then show ?case by (cases i) (auto split: sum.splits)
qed

lemma mapM_map_Inr: "(\<And>x. x \<in> set xs \<Longrightarrow> f x = Inr (g x)) \<Longrightarrow> mapM f xs = Inr (map g xs)"
  by (induction xs) auto

lemma mapM_Inl_mem: "x \<in> set xs \<Longrightarrow> f x = Inl e \<Longrightarrow> \<exists>e'. mapM f xs = Inl e'"
  by (induction xs) (auto split: sum.splits)

lemma mapM_cong: "(\<And>x. x \<in> set xs \<Longrightarrow> f x = g x) \<Longrightarrow> mapM f xs = mapM g xs"
  by (induction xs) (auto split: sum.splits)

lemma mapM_map: "mapM f (map h xs) = mapM (\<lambda>x. f (h x)) xs"
  by (induction xs) (auto split: sum.splits)

lemma py_index_nonneg: "0 \<le> i \<Longrightarrow> i < int (length xs) \<Longrightarrow> py_index xs i = Inr (xs ! nat i)"
  by (simp add: py_index_def py_pos_def)

lemma py_index_nat: "i < length xs \<Longrightarrow> py_index xs (int i) = Inr (xs ! i)"
  by (simp add: py_index_def py_pos_def)

lemma py_index_nat_out: "length xs \<le> i \<Longrightarrow> py_index xs (int i) = Inl IndexError"
  by (simp add: py_index_def py_pos_def)

lemma py_index_out: "int (length xs) \<le> i \<or> i < - int (length xs) \<Longrightarrow> py_index xs i = Inl IndexError"
  by (auto simp add: py_index_def py_pos_def)


lemma fl_sum_Fin: "fl_sum (map Fin xs) = Fin (sum_list xs)"
  by (induction xs) auto

lemma fl_sum_map_Fin: "fl_sum (map (\<lambda>x. Fin (g x)) xs) = Fin (\<Sum>x\<leftarrow>xs. g x)"
  by (induction xs) auto

lemma argmin_from_bound: "bi < j \<Longrightarrow> argmin_from bi bv j xs < j + length xs"
proof (induction xs arbitrary: bi bv j)
  case Nil
  then show ?case by simp
next
  case (Cons x xs)
  have a: "argmin_from j x (Suc j) xs < Suc j + length xs"
    by (rule Cons.IH) simp
  have b: "argmin_from bi bv (Suc j) xs < Suc j + length xs"
    by (rule Cons.IH) (use Cons.prems in simp)
  show ?case using a b Cons.prems by simp
qed

lemma argmin_bound: "argmin xs = Inr p \<Longrightarrow> p < length xs"
  using argmin_from_bound[of 0 1] by (auto simp: argmin_def split: list.splits)

lemma argmin_from_Fin:
  "argmin_from bi (Fin b) j (map Fin ds) = r \<Longrightarrow>
     (r = bi \<and> (\<forall>q<length ds. b \<le> ds ! q)) \<or>
     (\<exists>p<length ds. r = j + p \<and> ds ! p < b \<and> (\<forall>q<length ds. ds ! p \<le> ds ! q) \<and> (\<forall>q<p. ds ! p < ds ! q))"
proof (induction ds arbitrary: bi b j r)
  case Nil
  then show ?case by simp
next
  case (Cons x ds)
  show ?case
  proof (cases "x < b")
    case True
    with Cons.prems have r: "argmin_from j (Fin x) (Suc j) (map Fin ds) = r" by simp
    from Cons.IH[OF r] show ?thesis
    proof
      assume a: "r = j \<and> (\<forall>q<length ds. x \<le> ds ! q)"
      have "\<forall>q<length (x # ds). (x # ds) ! 0 \<le> (x # ds) ! q"
        using a by (auto simp: nth_Cons split: nat.splits)
      with a True show ?thesis by (intro disjI2 exI[of _ 0]) auto
    next
      assume "\<exists>p<length ds. r = Suc j + p \<and> ds ! p < x \<and> (\<forall>q<length ds. ds ! p \<le> ds ! q) \<and> (\<forall>q<p. ds ! p < ds ! q)"
      then obtain p where p: "p < length ds" "r = Suc j + p" "ds ! p < x"
        "\<forall>q<length ds. ds ! p \<le> ds ! q" "\<forall>q<p. ds ! p < ds ! q" by blast
      have 1: "\<forall>q<length (x # ds). (x # ds) ! Suc p \<le> (x # ds) ! q"
        using p by (auto simp: nth_Cons split: nat.splits)
      have 2: "\<forall>q<Suc p. (x # ds) ! Suc p < (x # ds) ! q"
        using p by (auto simp: nth_Cons split: nat.splits)
      show ?thesis
        using p True 1 2 by (intro disjI2 exI[of _ "Suc p"]) auto
    qed
  next
    case False
    with Cons.prems have r: "argmin_from bi (Fin b) (Suc j) (map Fin ds) = r" by simp
    from Cons.IH[OF r] show ?thesis
    proof
      assume a: "r = bi \<and> (\<forall>q<length ds. b \<le> ds ! q)"
      have "\<forall>q<length (x # ds). b \<le> (x # ds) ! q"
        using a False by (auto simp: nth_Cons split: nat.splits)
      with a show ?thesis by blast
    next
      assume "\<exists>p<length ds. r = Suc j + p \<and> ds ! p < b \<and> (\<forall>q<length ds. ds ! p \<le> ds ! q) \<and> (\<forall>q<p. ds ! p < ds ! q)"
      then obtain p where p: "p < length ds" "r = Suc j + p" "ds ! p < b"
        "\<forall>q<length ds. ds ! p \<le> ds ! q" "\<forall>q<p. ds ! p < ds ! q" by blast
      have 1: "\<forall>q<length (x # ds). (x # ds) ! Suc p \<le> (x # ds) ! q"
        using p False by (auto simp: nth_Cons split: nat.splits)
      have 2: "\<forall>q<Suc p. (x # ds) ! Suc p < (x # ds) ! q"
        using p False by (auto simp: nth_Cons split: nat.splits)
      show ?thesis
        using p 1 2 by (intro disjI2 exI[of _ "Suc p"]) auto
    qed
  qed
qed

lemma argmin_Fin:
  assumes "ds \<noteq> []"
  shows "\<exists>p<length ds. argmin (map Fin ds) = Inr p \<and> (\<forall>q<length ds. ds ! p \<le> ds ! q) \<and> (\<forall>q<p. ds ! p < ds ! q)"
proof -
  from assms obtain x r where ds: "ds = x # r" by (cases ds) auto
  have am: "argmin (map Fin ds) = Inr (argmin_from 0 (Fin x) 1 (map Fin r))"
    by (simp add: ds argmin_def)
  from argmin_from_Fin[OF refl, of 0 x 1 r]
  show ?thesis
  proof
    assume a: "argmin_from 0 (Fin x) 1 (map Fin r) = 0 \<and> (\<forall>q<length r. x \<le> r ! q)"
    have "\<forall>q<length ds. ds ! 0 \<le> ds ! q"
      using a by (auto simp: ds nth_Cons split: nat.splits)
    with a am show ?thesis by (intro exI[of _ 0]) (auto simp: ds)
  next
    assume "\<exists>p<length r. argmin_from 0 (Fin x) 1 (map Fin r) = 1 + p \<and> r ! p < x \<and> (\<forall>q<length r. r ! p \<le> r ! q) \<and> (\<forall>q<p. r ! p < r ! q)"
    then obtain p where p: "p < length r" "argmin_from 0 (Fin x) 1 (map Fin r) = 1 + p" "r ! p < x"
        "\<forall>q<length r. r ! p \<le> r ! q" "\<forall>q<p. r ! p < r ! q" by blast
    have 1: "\<forall>q<length ds. ds ! Suc p \<le> ds ! q"
      using p by (auto simp: ds nth_Cons split: nat.splits)
    have 2: "\<forall>q<Suc p. ds ! Suc p < ds ! q"
      using p by (auto simp: ds nth_Cons split: nat.splits)
    show ?thesis using p am 1 2 by (intro exI[of _ "Suc p"]) (auto simp: ds)
  qed
qed


subsection \<open>Centroids and distances on valid inputs\<close>

lemma node_centroid_in_range:
  assumes "\<forall>e \<in> set ne. 0 \<le> e \<and> e < int (nrows X)"
  shows "node_centroid X ne = Inr (mean_axis0 (ncols X) (map (\<lambda>e. rows X ! nat e) ne))"
proof -
  have "mapM (py_index (rows X)) ne = Inr (map (\<lambda>e. rows X ! nat e) ne)"
    using assms by (intro mapM_map_Inr py_index_nonneg) (auto simp: nrows_def)
  then show ?thesis by (simp add: node_centroid_def)
qed

lemma mean_axis0_nonempty:
  assumes "ne \<noteq> []"
  shows "mean_axis0 (ncols X) (map (\<lambda>e. rows X ! nat e) ne) = map Fin (centroid X ne)"
  using assms by (simp add: mean_axis0_def centroid_def o_def)

lemma centroids_of_in_range:
  assumes "\<forall>ne \<in> set nodes. \<forall>e \<in> set ne. 0 \<le> e \<and> e < int (nrows X)"
  shows "centroids_of X nodes =
           Inr (map (\<lambda>ne. mean_axis0 (ncols X) (map (\<lambda>e. rows X ! nat e) ne)) nodes)"
  unfolding centroids_of_def using assms by (intro mapM_map_Inr node_centroid_in_range) auto

lemma centroids_of_length: "centroids_of X nodes = Inr cents \<Longrightarrow> length cents = length nodes"
  by (simp add: centroids_of_def mapM_Inr_length)

lemma centroid_lookup:
  assumes "centroids_of X nodes = Inr cents"
    and "\<forall>ne \<in> set nodes. \<forall>e \<in> set ne. 0 \<le> e \<and> e < int (nrows X)"
    and "0 \<le> c" "c < int (length nodes)" "nodes ! nat c \<noteq> []"
  shows "py_index cents c = Inr (map Fin (centroid X (nodes ! nat c)))"
proof -
  have cents: "cents = map (\<lambda>ne. mean_axis0 (ncols X) (map (\<lambda>e. rows X ! nat e) ne)) nodes"
    using centroids_of_in_range[OF assms(2)] assms(1) by simp
  have "py_index cents c = Inr (cents ! nat c)"
    using assms(3,4) by (intro py_index_nonneg) (auto simp: cents)
  moreover have "cents ! nat c = map Fin (centroid X (nodes ! nat c))"
    using assms(3,4,5) by (simp add: cents mean_axis0_nonempty)
  ultimately show ?thesis by simp
qed

lemma sq_dist_nonneg: "0 \<le> sq_dist x c"
  unfolding sq_dist_def by (rule sum_list_nonneg) auto


lemma fl_norm_diff_Fin:
  "fl_norm (map2 (\<lambda>x m. fl_sub (Fin x) m) r (map Fin c)) = Fin (euclid_dist r c)"
proof -
  have "map (\<lambda>z. fl_mul z z) (map2 (\<lambda>x m. fl_sub (Fin x) m) r (map Fin c)) =
          map (\<lambda>(a, m). Fin ((a - m) * (a - m))) (zip r c)"
    by (simp add: zip_map2 fl_sub_def case_prod_unfold)
  then have "fl_sum (map (\<lambda>z. fl_mul z z) (map2 (\<lambda>x m. fl_sub (Fin x) m) r (map Fin c))) =
          Fin (sq_dist r c)"
    by (simp add: fl_sum_map_Fin sq_dist_def case_prod_unfold)
  then show ?thesis
    by (simp add: fl_norm_def euclid_dist_def sq_dist_nonneg)
qed

lemma sum_list_concat_map: "sum_list (concat (map g zs)) = (\<Sum>z\<leftarrow>zs. sum_list (g z :: real list))"
  by (induction zs) auto

lemma sq_dev_Fin:
  "sq_dev X (map (map Fin) cs) = Fin (\<Sum>(x, c)\<leftarrow>zip (rows X) cs. sq_dist x c)"
proof -
  have "map2 (\<lambda>x c. map2 (\<lambda>a m. fl_mul (fl_sub (Fin a) m) (fl_sub (Fin a) m)) x c)
             (rows X) (map (map Fin) cs) =
          map (\<lambda>(x, c). map Fin (map2 (\<lambda>a m. (a - m) * (a - m)) x c)) (zip (rows X) cs)"
    by (simp add: zip_map2 case_prod_unfold fl_sub_def)
  then have "concat (map2 (\<lambda>x c. map2 (\<lambda>a m. fl_mul (fl_sub (Fin a) m) (fl_sub (Fin a) m)) x c)
             (rows X) (map (map Fin) cs)) =
          map Fin (concat (map (\<lambda>(x, c). map2 (\<lambda>a m. (a - m) * (a - m)) x c) (zip (rows X) cs)))"
    by (simp add: map_concat case_prod_unfold o_def)
  then show ?thesis
    by (simp add: sq_dev_def fl_sum_Fin sum_list_concat_map sq_dist_def o_def case_prod_unfold)
qed

lemma sum_list_zip_nth:
  assumes "length ys = length xs"
  shows "(\<Sum>(x, y)\<leftarrow>zip xs ys. g x y) = (\<Sum>i\<leftarrow>[0..<length xs]. g (xs ! i) (ys ! i))"
proof -
  have "zip xs ys = map (\<lambda>i. (xs ! i, ys ! i)) [0..<length xs]"
    using assms by (intro nth_equalityI) auto
  then show ?thesis by (simp add: o_def)
qed

subsection \<open>The hard labels\<close>

lemma mapM_Inr_ex: "(\<And>x. x \<in> set xs \<Longrightarrow> \<exists>y. f x = Inr y) \<Longrightarrow> \<exists>ys. mapM f xs = Inr ys"
proof (induction xs)
  case Nil
  then show ?case by simp
next
  case (Cons x xs)
  from Cons.prems obtain y where "f x = Inr y" by fastforce
  moreover from Cons obtain ys where "mapM f xs = Inr ys" by fastforce
  ultimately show ?case by simp
qed

lemma label_of_candidates:
  assumes "label_of X cents cands i = Inr l"
  shows "i < length cands \<and> l \<in> set (cands ! i)"
proof -
  from assms obtain ps where ps: "py_index cands (int i) = Inr ps"
    by (auto simp: label_of_def split: sum.splits)
  then have i: "i < length cands" and ps_eq: "ps = cands ! i"
    by (auto simp: py_index_def py_pos_def split: if_splits)
  have "l \<in> set ps"
  proof (cases "length ps = 1")
    case True
    with assms ps show ?thesis by (auto simp: label_of_def)
  next
    case False
    with assms ps have "nearest X cents i ps = Inr l" by (simp add: label_of_def)
    then obtain ds rel where ds: "mapM (point_dist X cents i) ps = Inr ds"
      and rel: "argmin ds = Inr rel" and l: "l = ps ! rel"
      by (auto simp: nearest_def split: sum.splits)
    from argmin_bound[OF rel] mapM_Inr_length[OF ds] have "rel < length ps" by simp
    with l show ?thesis by simp
  qed
  with i ps_eq show ?thesis by simp
qed

lemma labels_unique_candidates:
  assumes "labels_unique X cents cands = Inr labels"
  shows "length labels = nrows X"
    and "i < nrows X \<Longrightarrow> i < length cands \<and> labels ! i \<in> set (cands ! i)"
proof -
  show "length labels = nrows X"
    using mapM_Inr_length[OF assms[unfolded labels_unique_def]] by simp
  assume "i < nrows X"
  then have "label_of X cents cands i = Inr (labels ! i)"
    using mapM_Inr_nth[OF assms[unfolded labels_unique_def], of i] by simp
  then show "i < length cands \<and> labels ! i \<in> set (cands ! i)"
    by (rule label_of_candidates)
qed

lemma point_dist_valid:
  assumes "centroids_of X nodes = Inr cents"
    and "\<forall>ne \<in> set nodes. \<forall>e \<in> set ne. 0 \<le> e \<and> e < int (nrows X)"
    and "0 \<le> c" "c < int (length nodes)" "nodes ! nat c \<noteq> []"
  shows "point_dist X cents i c = Inr (Fin (node_dist X nodes i c))"
  using centroid_lookup[OF assms]
  by (simp add: point_dist_def fl_norm_diff_Fin node_dist_def)

lemma nearest_valid:
  assumes "centroids_of X nodes = Inr cents"
    and "\<forall>ne \<in> set nodes. \<forall>e \<in> set ne. 0 \<le> e \<and> e < int (nrows X)"
    and "ps \<noteq> []"
    and "\<forall>c \<in> set ps. 0 \<le> c \<and> c < int (length nodes) \<and> nodes ! nat c \<noteq> []"
  shows "\<exists>p<length ps. nearest X cents i ps = Inr (ps ! p) \<and>
           (\<forall>q<length ps. node_dist X nodes i (ps ! p) \<le> node_dist X nodes i (ps ! q)) \<and>
           (\<forall>q<p. node_dist X nodes i (ps ! p) < node_dist X nodes i (ps ! q))"
proof -
  let ?ds = "map (node_dist X nodes i) ps"
  have "mapM (point_dist X cents i) ps = Inr (map (\<lambda>c. Fin (node_dist X nodes i c)) ps)"
    using assms(4) by (intro mapM_map_Inr point_dist_valid[OF assms(1,2)]) auto
  then have ds: "mapM (point_dist X cents i) ps = Inr (map Fin ?ds)"
    by (simp add: o_def)
  from assms(3) have "?ds \<noteq> []" by simp
  from argmin_Fin[OF this] obtain p where p: "p < length ps" "argmin (map Fin ?ds) = Inr p"
    "\<forall>q<length ps. ?ds ! p \<le> ?ds ! q" "\<forall>q<p. ?ds ! p < ?ds ! q"
    by auto
  have "nearest X cents i ps = Inr (ps ! p)"
    using ds p(2) by (simp add: nearest_def)
  moreover have "\<forall>q<length ps. node_dist X nodes i (ps ! p) \<le> node_dist X nodes i (ps ! q)"
    using p(1,3) by simp
  moreover have "\<forall>q<p. node_dist X nodes i (ps ! p) < node_dist X nodes i (ps ! q)"
    using p(1,4) by simp
  ultimately show ?thesis using p(1) by blast
qed

lemma valid_input_candidates:
  assumes "valid_input X nodes cands" "i < nrows X"
  shows "py_index cands (int i) = Inr (cands ! i)" "cands ! i \<noteq> []"
    "\<forall>c \<in> set (cands ! i). 0 \<le> c \<and> c < int (length nodes) \<and> nodes ! nat c \<noteq> []"
proof -
  from assms have i: "i < length cands" by (simp add: valid_input_def)
  then show "py_index cands (int i) = Inr (cands ! i)" by (rule py_index_nat)
  from i have "cands ! i \<in> set cands" by simp
  with assms(1) show "cands ! i \<noteq> []"
    "\<forall>c \<in> set (cands ! i). 0 \<le> c \<and> c < int (length nodes) \<and> nodes ! nat c \<noteq> []"
    unfolding valid_input_def by blast+
qed

lemma valid_input_nodes:
  "valid_input X nodes cands \<Longrightarrow> \<forall>ne \<in> set nodes. \<forall>e \<in> set ne. 0 \<le> e \<and> e < int (nrows X)"
  by (simp add: valid_input_def)

lemma valid_input_centroids:
  "valid_input X nodes cands \<Longrightarrow> \<exists>cents. centroids_of X nodes = Inr cents"
  using centroids_of_in_range[OF valid_input_nodes] by blast

lemma label_of_valid:
  assumes "valid_input X nodes cands" "centroids_of X nodes = Inr cents" "i < nrows X"
  shows "\<exists>p<length (cands ! i). label_of X cents cands i = Inr (cands ! i ! p) \<and>
           (\<forall>q<length (cands ! i).
               node_dist X nodes i (cands ! i ! p) \<le> node_dist X nodes i (cands ! i ! q)) \<and>
           (\<forall>q<p. node_dist X nodes i (cands ! i ! p) < node_dist X nodes i (cands ! i ! q))"
proof (cases "length (cands ! i) = 1")
  case True
  then have "label_of X cents cands i = Inr (cands ! i ! 0)"
    using valid_input_candidates(1)[OF assms(1,3)] by (simp add: label_of_def)
  with True show ?thesis by (intro exI[of _ 0]) auto
next
  case False
  then have "label_of X cents cands i = nearest X cents i (cands ! i)"
    using valid_input_candidates(1)[OF assms(1,3)] by (simp add: label_of_def)
  with nearest_valid[OF assms(2) valid_input_nodes[OF assms(1)]
      valid_input_candidates(2,3)[OF assms(1,3)], of i]
  show ?thesis by simp
qed

lemma resolve_valid:
  assumes "valid_input X nodes cands"
  shows "\<exists>cents labels. centroids_of X nodes = Inr cents \<and>
           labels_unique X cents cands = Inr labels \<and> resolve X nodes cands = Inr labels"
proof -
  from valid_input_centroids[OF assms] obtain cents where c: "centroids_of X nodes = Inr cents"
    by blast
  have "\<exists>labels. mapM (label_of X cents cands) [0..<nrows X] = Inr labels"
  proof (rule mapM_Inr_ex)
    fix i assume "i \<in> set [0..<nrows X]"
    then have "i < nrows X" by simp
    from label_of_valid[OF assms c this] show "\<exists>y. label_of X cents cands i = Inr y" by blast
  qed
  then obtain labels where "labels_unique X cents cands = Inr labels"
    by (auto simp: labels_unique_def)
  with c show ?thesis by (auto simp: resolve_def)
qed

lemma resolve_labels_valid:
  assumes "valid_input X nodes cands" "resolve X nodes cands = Inr labels" "i < nrows X"
  shows "0 \<le> labels ! i \<and> labels ! i < int (length nodes) \<and> nodes ! nat (labels ! i) \<noteq> []"
proof -
  from resolve_valid[OF assms(1)] assms(2) obtain cents where
    "labels_unique X cents cands = Inr labels" by auto
  from labels_unique_candidates(2)[OF this assms(3)] valid_input_candidates(3)[OF assms(1,3)]
  show ?thesis by blast
qed

subsection \<open>The position \<open>np.argmin\<close> returns\<close>









section \<open>The resolver\<close>

text \<open>
  C6. For every valid input the hard labels exist, there is one per point, and the label
  of point \<open>i\<close> is a member of the candidate list of point \<open>i\<close>: no identifier is
  produced that was not offered for that point.
\<close>

theorem resolve_label_is_candidate:
  assumes "valid_input X nodes_elements X_idx_to_node_idxs"
  shows "\<exists>labels. resolve X nodes_elements X_idx_to_node_idxs = Inr labels \<and>
           length labels = nrows X \<and>
           (\<forall>i<nrows X. labels ! i \<in> set (X_idx_to_node_idxs ! i))"
proof -
  from resolve_valid[OF assms] obtain cents labels where
    l: "labels_unique X cents X_idx_to_node_idxs = Inr labels"
    and r: "resolve X nodes_elements X_idx_to_node_idxs = Inr labels"
    by blast
  from labels_unique_candidates[OF l] r show ?thesis by blast
qed

theorem resolve_label_is_candidate_witness:
  "valid_input X_three nodes_three cells_three \<and>
   (\<exists>labels. resolve X_three nodes_three cells_three = Inr labels \<and>
      length labels = nrows X_three \<and>
      (\<forall>i<nrows X_three. labels ! i \<in> set (cells_three ! i)))"
proof -
  have v: "valid_input X_three nodes_three cells_three"
    by (simp add: valid_input_def scenario_defs nrows_def rectangular_def)
  from v resolve_label_is_candidate[OF v] show ?thesis by - (intro conjI; assumption)
qed



text \<open>
  C7. For every valid input the shortcut changes nothing: at every point the loop body
  gives what the general rule (distances and \<open>argmin\<close>, with no test on the number of
  candidates) gives, and at a point with one candidate both give that candidate. When
  every point has one candidate, the labels are the sole candidates in point order.
\<close>

theorem single_candidate_shortcut:
  assumes "valid_input X nodes_elements X_idx_to_node_idxs"
    and "centroids_of X nodes_elements = Inr centroids"
  shows "(\<forall>i<nrows X.
            label_of X centroids X_idx_to_node_idxs i = label_general X centroids X_idx_to_node_idxs i \<and>
            (length (X_idx_to_node_idxs ! i) = 1 \<longrightarrow>
               label_of X centroids X_idx_to_node_idxs i = Inr (X_idx_to_node_idxs ! i ! 0))) \<and>
         ((\<forall>i<nrows X. length (X_idx_to_node_idxs ! i) = 1) \<longrightarrow>
            resolve X nodes_elements X_idx_to_node_idxs = Inr (map (\<lambda>ps. ps ! 0) X_idx_to_node_idxs))"
proof -
  have one: "label_of X centroids X_idx_to_node_idxs i = Inr (X_idx_to_node_idxs ! i ! 0)"
    if "i < nrows X" "length (X_idx_to_node_idxs ! i) = 1" for i
    using that valid_input_candidates(1)[OF assms(1) that(1)] by (simp add: label_of_def)
  have same: "label_of X centroids X_idx_to_node_idxs i = label_general X centroids X_idx_to_node_idxs i"
    if i: "i < nrows X" for i
  proof (cases "length (X_idx_to_node_idxs ! i) = 1")
    case True
    from nearest_valid[OF assms(2) valid_input_nodes[OF assms(1)]
        valid_input_candidates(2,3)[OF assms(1) i], of i] True
    have "nearest X centroids i (X_idx_to_node_idxs ! i) = Inr (X_idx_to_node_idxs ! i ! 0)"
      by auto
    then have "label_general X centroids X_idx_to_node_idxs i = Inr (X_idx_to_node_idxs ! i ! 0)"
      using valid_input_candidates(1)[OF assms(1) i] by (simp add: label_general_def)
    with one[OF i True] show ?thesis by simp
  next
    case False
    then show ?thesis
      using valid_input_candidates(1)[OF assms(1) i] by (simp add: label_of_def label_general_def)
  qed
  have all: "resolve X nodes_elements X_idx_to_node_idxs = Inr (map (\<lambda>ps. ps ! 0) X_idx_to_node_idxs)"
    if a: "\<forall>i<nrows X. length (X_idx_to_node_idxs ! i) = 1"
  proof -
    have len: "length X_idx_to_node_idxs = nrows X"
      using assms(1) by (simp add: valid_input_def)
    have "mapM (label_of X centroids X_idx_to_node_idxs) [0..<nrows X] =
            Inr (map (\<lambda>i. X_idx_to_node_idxs ! i ! 0) [0..<nrows X])"
      using a one by (intro mapM_map_Inr) auto
    moreover have "map (\<lambda>i. X_idx_to_node_idxs ! i ! 0) [0..<nrows X] =
            map (\<lambda>ps. ps ! 0) X_idx_to_node_idxs"
      using len by (intro nth_equalityI) auto
    ultimately show ?thesis
      using assms(2) by (simp add: resolve_def labels_unique_def)
  qed
  from one same all show ?thesis by blast
qed

theorem single_candidate_shortcut_witness:
  "valid_input X_line nodes_pairs cells_pairs \<and>
   centroids_of X_line nodes_pairs = Inr [[Fin (1 / 2)], [Fin (19 / 2)]] \<and>
   label_of X_line [[Fin (1 / 2)], [Fin (19 / 2)]] cells_pairs 2 =
     label_general X_line [[Fin (1 / 2)], [Fin (19 / 2)]] cells_pairs 2 \<and>
   label_of X_line [[Fin (1 / 2)], [Fin (19 / 2)]] cells_pairs 2 = Inr 1 \<and>
   resolve X_line nodes_pairs cells_pairs = Inr [0, 0, 1, 1]"
proof -
  have v: "valid_input X_line nodes_pairs cells_pairs"
    by (simp add: valid_input_def scenario_defs nrows_def rectangular_def)
  have c: "centroids_of X_line nodes_pairs = Inr [[Fin (1 / 2)], [Fin (19 / 2)]]"
    by (simp add: scenario_defs compute_aic_unfold)
  have a: "\<forall>i<nrows X_line. length (cells_pairs ! i) = 1"
    by (simp add: scenario_defs nrows_def less_Suc_eq eval_nat_numeral)
  have n: "2 < nrows X_line" "length (cells_pairs ! 2) = 1" "cells_pairs ! 2 ! 0 = 1"
    by (simp_all add: scenario_defs nrows_def)
  note t = single_candidate_shortcut[OF v c]
  from t n have 1: "label_of X_line [[Fin (1 / 2)], [Fin (19 / 2)]] cells_pairs 2 =
     label_general X_line [[Fin (1 / 2)], [Fin (19 / 2)]] cells_pairs 2"
    by blast
  from t n have 2: "label_of X_line [[Fin (1 / 2)], [Fin (19 / 2)]] cells_pairs 2 = Inr 1"
    by metis
  from t a have "resolve X_line nodes_pairs cells_pairs = Inr (map (\<lambda>ps. ps ! 0) cells_pairs)"
    by blast
  then have 3: "resolve X_line nodes_pairs cells_pairs = Inr [0, 0, 1, 1]"
    by (simp add: cells_pairs_def)
  from v c 1 2 3 show ?thesis by - (intro conjI; assumption)
qed

subsection \<open>The list of clusters\<close>

lemma concat_replicate_Nil: "concat (replicate n []) = []"
  by (induction n) auto

lemma mset_concat_update:
  "q < length xs \<Longrightarrow> mset (concat (xs[q := xs ! q @ ys])) = mset (concat xs) + mset ys"
proof (induction xs arbitrary: q)
  case Nil
  then show ?case by simp
next
  case (Cons x xs)
  then show ?case by (cases q) auto
qed

lemma py_pos_bound: "py_pos n i = Some q \<Longrightarrow> q < n"
  by (auto simp: py_pos_def split: if_splits)

lemma add_to_cluster_mset:
  assumes "add_to_cluster cs (i, l) = Inr cs'"
  shows "mset (concat cs') = mset (concat cs) + {#i#}"
proof -
  define grown where
    "grown = (if 0 < l + 1 - int (length cs) then cs @ replicate (nat (l + 1 - int (length cs))) [] else cs)"
  from assms obtain q where q: "py_pos (length grown) l = Some q"
    and cs': "cs' = grown[q := grown ! q @ [i]]"
    by (auto simp: grown_def Let_def split: option.splits)
  have "concat grown = concat cs"
    by (simp add: grown_def concat_replicate_Nil)
  with mset_concat_update[OF py_pos_bound[OF q], of "[i]"] cs' show ?thesis by simp
qed

lemma foldM_add_to_cluster_mset:
  "foldM add_to_cluster cs ps = Inr cs' \<Longrightarrow> mset (concat cs') = mset (concat cs) + mset (map fst ps)"
proof (induction ps arbitrary: cs)
  case Nil
  then show ?case by simp
next
  case (Cons p ps)
  obtain i l where p: "p = (i, l)" by (cases p)
  from Cons.prems obtain cs1 where 1: "add_to_cluster cs (i, l) = Inr cs1"
    and 2: "foldM add_to_cluster cs1 ps = Inr cs'"
    by (auto simp: p split: sum.splits)
  from Cons.IH[OF 2] add_to_cluster_mset[OF 1] show ?case by (simp add: p)
qed

lemma concat_filter_nonempty: "concat (filter (\<lambda>c. c \<noteq> []) cs) = concat cs"
  by (induction cs) auto

lemma length_le_concat: "\<forall>c \<in> set cs. c \<noteq> [] \<Longrightarrow> length cs \<le> length (concat cs)"
proof (induction cs)
  case Nil
  then show ?case by simp
next
  case (Cons c cs)
  then have "1 \<le> length c" by (cases c) auto
  with Cons show ?case by auto
qed

lemma build_clusters_partition:
  assumes "build_clusters labels = Inr clusters"
  shows "mset (concat clusters) = mset [0..<length labels]"
    and "\<forall>c \<in> set clusters. c \<noteq> []"
    and "distinct (concat clusters)"
    and "set (concat clusters) = {0..<length labels}"
    and "sum_list (map length clusters) = length labels"
    and "length clusters \<le> length labels"
    and "labels \<noteq> [] \<Longrightarrow> 1 \<le> length clusters"
proof -
  from assms obtain cs where cs: "foldM add_to_cluster [] (enumerate 0 labels) = Inr cs"
    and cl: "clusters = filter (\<lambda>c. c \<noteq> []) cs"
    by (auto simp: build_clusters_def split: sum.splits)
  from foldM_add_to_cluster_mset[OF cs]
  show m: "mset (concat clusters) = mset [0..<length labels]"
    by (simp add: cl concat_filter_nonempty)
  show ne: "\<forall>c \<in> set clusters. c \<noteq> []" by (simp add: cl)
  from m have "distinct (concat clusters) = distinct [0..<length labels]"
    by (rule mset_eq_imp_distinct_iff)
  then show "distinct (concat clusters)" by simp
  from m have "set (concat clusters) = set [0..<length labels]"
    by (rule mset_eq_setD)
  then show "set (concat clusters) = {0..<length labels}" by simp
  from m have len: "length (concat clusters) = length labels"
    using mset_eq_length by fastforce
  then show "sum_list (map length clusters) = length labels"
    by (simp add: length_concat)
  from length_le_concat[OF ne] len show "length clusters \<le> length labels" by simp
  assume nonempty: "labels \<noteq> []"
  have "clusters \<noteq> []"
  proof
    assume "clusters = []"
    then have "length (concat clusters) = 0" by simp
    with len nonempty show False by simp
  qed
  then show "1 \<le> length clusters" by (cases clusters) auto
qed

lemma add_to_cluster_nonneg:
  assumes "0 \<le> l"
  shows "\<exists>cs'. add_to_cluster cs (i, l) = Inr cs' \<and> length cs' = max (length cs) (Suc (nat l)) \<and>
           (\<forall>v<length cs'. cs' ! v = (if v < length cs then cs ! v else []) @ (if v = nat l then [i] else []))"
proof -
  define grown where
    "grown = (if 0 < l + 1 - int (length cs) then cs @ replicate (nat (l + 1 - int (length cs))) [] else cs)"
  have len: "length grown = max (length cs) (Suc (nat l))"
    using assms by (auto simp: grown_def)
  have nth: "grown ! v = (if v < length cs then cs ! v else [])" if "v < length grown" for v
    using that by (auto simp: grown_def nth_append split: if_splits)
  have q: "py_pos (length grown) l = Some (nat l)"
    using assms len by (auto simp: py_pos_def)
  have eq: "add_to_cluster cs (i, l) = Inr (grown[nat l := grown ! nat l @ [i]])"
    using q by (simp add: grown_def Let_def)
  have "(grown[nat l := grown ! nat l @ [i]]) ! v =
          (if v < length cs then cs ! v else []) @ (if v = nat l then [i] else [])"
    if "v < length grown" for v
    using that nth[OF that] by (auto simp: nth_list_update)
  with eq len show ?thesis by auto
qed

lemma foldM_add_to_cluster_nonneg:
  assumes "\<forall>l \<in> set ls. 0 \<le> l"
  shows "\<exists>cs'. foldM add_to_cluster cs (enumerate n ls) = Inr cs' \<and> length cs \<le> length cs' \<and>
           (\<forall>l \<in> set ls. nat l < length cs') \<and>
           (\<forall>v<length cs'. cs' ! v = (if v < length cs then cs ! v else []) @
                                    map fst (filter (\<lambda>p. snd p = int v) (enumerate n ls)))"
  using assms
proof (induction ls arbitrary: cs n)
  case Nil
  then show ?case by simp
next
  case (Cons l ls)
  then have l: "0 \<le> l" and ls: "\<forall>l \<in> set ls. 0 \<le> l" by auto
  from add_to_cluster_nonneg[OF l, of cs n] obtain cs1 where
    1: "add_to_cluster cs (n, l) = Inr cs1" and len1: "length cs1 = max (length cs) (Suc (nat l))"
    and nth1: "\<forall>v<length cs1. cs1 ! v = (if v < length cs then cs ! v else []) @ (if v = nat l then [n] else [])"
    by blast
  from Cons.IH[OF ls, of cs1 "Suc n"] obtain cs' where
    2: "foldM add_to_cluster cs1 (enumerate (Suc n) ls) = Inr cs'" and len2: "length cs1 \<le> length cs'"
    and in2: "\<forall>l \<in> set ls. nat l < length cs'"
    and nth2: "\<forall>v<length cs'. cs' ! v = (if v < length cs1 then cs1 ! v else []) @
                  map fst (filter (\<lambda>p. snd p = int v) (enumerate (Suc n) ls))"
    by blast
  have f: "foldM add_to_cluster cs (enumerate n (l # ls)) = Inr cs'"
    using 1 2 by simp
  have a: "length cs \<le> length cs'" using len1 len2 by simp
  have b: "\<forall>x \<in> set (l # ls). nat x < length cs'" using len1 len2 in2 by auto
  have c: "cs' ! v = (if v < length cs then cs ! v else []) @
             map fst (filter (\<lambda>p. snd p = int v) (enumerate n (l # ls)))"
    if v: "v < length cs'" for v
  proof (cases "v < length cs1")
    case True
    with nth1 nth2 v l show ?thesis by auto
  next
    case False
    then have "v \<noteq> nat l" "\<not> v < length cs" using len1 by auto
    with nth2 v False l show ?thesis by auto
  qed
  from f a b c show ?case by blast
qed

lemma length_filter_enumerate:
  "length (filter (\<lambda>p. snd p = x) (enumerate n ls)) = count_list ls x"
  by (induction ls arbitrary: n) auto

lemma filter_enumerate_Nil:
  "(filter (\<lambda>p. snd p = x) (enumerate n ls) = []) = (count_list ls x = 0)"
  using length_filter_enumerate[of x n ls] by (metis length_0_conv)

lemma build_clusters_nonneg:
  assumes "\<forall>l \<in> set ls. 0 \<le> l"
  shows "\<exists>L. (\<forall>l \<in> set ls. nat l < L) \<and>
           build_clusters ls =
             Inr (filter (\<lambda>c. c \<noteq> [])
                    (map (\<lambda>v. map fst (filter (\<lambda>p. snd p = int v) (enumerate 0 ls))) [0..<L]))"
proof -
  from foldM_add_to_cluster_nonneg[OF assms, of "[]" 0] obtain cs' where
    f: "foldM add_to_cluster [] (enumerate 0 ls) = Inr cs'"
    and i: "\<forall>l \<in> set ls. nat l < length cs'"
    and n: "\<forall>v<length cs'. cs' ! v = map fst (filter (\<lambda>p. snd p = int v) (enumerate 0 ls))"
    by auto
  have "cs' = map (\<lambda>v. map fst (filter (\<lambda>p. snd p = int v) (enumerate 0 ls))) [0..<length cs']"
    using n by (intro nth_equalityI) auto
  with f i show ?thesis
    unfolding build_clusters_def by (intro exI[of _ "length cs'"]) auto
qed

lemma sum_list_cluster_sizes:
  fixes g :: "nat \<Rightarrow> 'a::comm_monoid_add"
  assumes "\<forall>l \<in> set ls. 0 \<le> l" "build_clusters ls = Inr clusters"
  shows "(\<Sum>c\<leftarrow>clusters. g (length c)) = (\<Sum>l \<in> set ls. g (count_list ls l))"
proof -
  from build_clusters_nonneg[OF assms(1)] assms(2) obtain L where
    L: "\<forall>l \<in> set ls. nat l < L"
    and cl: "clusters = filter (\<lambda>c. c \<noteq> [])
                    (map (\<lambda>v. map fst (filter (\<lambda>p. snd p = int v) (enumerate 0 ls))) [0..<L])"
    by auto
  let ?A = "{v. v < L \<and> int v \<in> set ls}"
  have "(\<Sum>c\<leftarrow>clusters. g (length c)) =
          (\<Sum>v\<leftarrow>[0..<L]. if 0 < count_list ls (int v) then g (count_list ls (int v)) else 0)"
    unfolding cl
    by (simp add: sum_list_map_filter' o_def length_filter_enumerate filter_enumerate_Nil if_distrib cong: if_cong)
  also have "\<dots> = (\<Sum>v \<in> {0..<L}. if 0 < count_list ls (int v) then g (count_list ls (int v)) else 0)"
    by (simp add: interv_sum_list_conv_sum_set_nat)
  also have "\<dots> = (\<Sum>v \<in> ?A. g (count_list ls (int v)))"
    by (intro sum.mono_neutral_cong_right) (auto simp: count_list_0_iff zero_less_iff_neq_zero)
  also have "\<dots> = (\<Sum>l \<in> int ` ?A. g (count_list ls l))"
    by (simp add: sum.reindex)
  also have "int ` ?A = set ls"
  proof
    show "int ` ?A \<subseteq> set ls" by auto
    show "set ls \<subseteq> int ` ?A"
    proof
      fix l assume l: "l \<in> set ls"
      with L assms(1) have "nat l \<in> ?A" "int (nat l) = l" by auto
      then show "l \<in> int ` ?A" by (metis imageI)
    qed
  qed
  finally show ?thesis .
qed


lemma clusters_pairwise_disjoint:
  assumes "distinct (concat cs)" "\<forall>c \<in> set cs. c \<noteq> []"
    and "a < length cs" "b < length cs" "a \<noteq> b"
  shows "set (cs ! a) \<inter> set (cs ! b) = {}"
proof -
  from assms(2) have "[] \<notin> set cs" by auto
  then have "removeAll [] cs = cs" by (rule removeAll_id)
  with assms(1) have d: "distinct cs"
    and dis: "\<forall>ys zs. ys \<in> set cs \<and> zs \<in> set cs \<and> ys \<noteq> zs \<longrightarrow> set ys \<inter> set zs = {}"
    by (simp_all add: distinct_concat_iff)
  from d assms(3,4,5) have "cs ! a \<noteq> cs ! b" by (simp add: nth_eq_iff_index_eq)
  with dis assms(3,4) show ?thesis by simp
qed

lemma valid_input_labels_nonneg:
  assumes "valid_input X nodes cands" "resolve X nodes cands = Inr labels"
  shows "length labels = nrows X"
    and "\<forall>l \<in> set labels. 0 \<le> l \<and> l < int (length nodes) \<and> nodes ! nat l \<noteq> []"
proof -
  from resolve_valid[OF assms(1)] assms(2) obtain cents where
    "labels_unique X cents cands = Inr labels" by auto
  from labels_unique_candidates(1)[OF this] show len: "length labels = nrows X" .
  show "\<forall>l \<in> set labels. 0 \<le> l \<and> l < int (length nodes) \<and> nodes ! nat l \<noteq> []"
  proof
    fix l assume "l \<in> set labels"
    then obtain i where "i < length labels" "l = labels ! i" by (auto simp: in_set_conv_nth)
    with resolve_labels_valid[OF assms, of i] len
    show "0 \<le> l \<and> l < int (length nodes) \<and> nodes ! nat l \<noteq> []" by simp
  qed
qed

lemma valid_input_clusters:
  assumes "valid_input X nodes cands" "resolve X nodes cands = Inr labels"
  shows "\<exists>clusters. build_clusters labels = Inr clusters"
  using build_clusters_nonneg[of labels] valid_input_labels_nonneg(2)[OF assms] by blast

section \<open>The list of clusters is a partition\<close>

text \<open>
  C10. For every valid input the list of clusters exists and is a partition of the point
  indices \<open>0, ..., N - 1\<close>: no cluster is empty, no index occurs twice (within a cluster
  or in two clusters), two different clusters are disjoint, every index occurs, the sizes
  add up to \<open>N\<close>, and \<open>1 \<le> k \<le> N\<close>.
\<close>

theorem clusters_partition:
  assumes "valid_input X nodes_elements X_idx_to_node_idxs"
  shows "\<exists>labels clusters.
           resolve X nodes_elements X_idx_to_node_idxs = Inr labels \<and>
           build_clusters labels = Inr clusters \<and>
           (\<forall>c \<in> set clusters. c \<noteq> []) \<and>
           distinct (concat clusters) \<and>
           (\<forall>a<length clusters. \<forall>b<length clusters.
               a \<noteq> b \<longrightarrow> set (clusters ! a) \<inter> set (clusters ! b) = {}) \<and>
           set (concat clusters) = {0..<nrows X} \<and>
           sum_list (map length clusters) = nrows X \<and>
           1 \<le> length clusters \<and> length clusters \<le> nrows X"
proof -
  from resolve_valid[OF assms] obtain labels where
    r: "resolve X nodes_elements X_idx_to_node_idxs = Inr labels" by blast
  from valid_input_clusters[OF assms r] obtain clusters where
    b: "build_clusters labels = Inr clusters" by blast
  have len: "length labels = nrows X"
    by (rule valid_input_labels_nonneg(1)[OF assms r])
  from assms have "1 \<le> nrows X" by (simp add: valid_input_def)
  with len have ne: "labels \<noteq> []" by auto
  note p = build_clusters_partition[OF b]
  have dis: "\<forall>a<length clusters. \<forall>b<length clusters.
               a \<noteq> b \<longrightarrow> set (clusters ! a) \<inter> set (clusters ! b) = {}"
    using clusters_pairwise_disjoint[OF p(3) p(2)] by blast
  from r b p(2) p(3) dis p(4) p(5) p(7)[OF ne] p(6) show ?thesis
    unfolding len by blast
qed

theorem clusters_partition_witness:
  "valid_input X_line nodes_pairs cells_pairs \<and>
   (\<exists>labels clusters.
      resolve X_line nodes_pairs cells_pairs = Inr labels \<and>
      build_clusters labels = Inr clusters \<and>
      (\<forall>c \<in> set clusters. c \<noteq> []) \<and>
      distinct (concat clusters) \<and>
      (\<forall>a<length clusters. \<forall>b<length clusters.
          a \<noteq> b \<longrightarrow> set (clusters ! a) \<inter> set (clusters ! b) = {}) \<and>
      set (concat clusters) = {0..<nrows X_line} \<and>
      sum_list (map length clusters) = nrows X_line \<and>
      1 \<le> length clusters \<and> length clusters \<le> nrows X_line) \<and>
   resolve X_line nodes_pairs cells_pairs = Inr [0, 0, 1, 1] \<and>
   build_clusters [0, 0, 1, 1] = Inr [[0, 1], [2, 3]]"
proof -
  have v: "valid_input X_line nodes_pairs cells_pairs"
    by (simp add: valid_input_def scenario_defs nrows_def rectangular_def)
  have r: "resolve X_line nodes_pairs cells_pairs = Inr [0, 0, 1, 1]"
    by (simp add: scenario_defs compute_aic_unfold)
  have b: "build_clusters [0, 0, 1, 1] = Inr [[0, 1], [2, 3]]"
    by (simp add: compute_aic_unfold)
  from v clusters_partition[OF v] r b show ?thesis by - (intro conjI; assumption)
qed

subsection \<open>The pooled variance and the score\<close>

lemma sigma_sq_of_valid:
  assumes "valid_input X nodes cands" "centroids_of X nodes = Inr cents"
    and "resolve X nodes cands = Inr labels"
  shows "sigma_sq_of X cents labels k =
           Inr (fl_div_int
                  (Fin (\<Sum>i\<leftarrow>[0..<nrows X].
                          sq_dist (rows X ! i) (centroid X (nodes ! nat (labels ! i)))))
                  (int (ncols X) * (int (nrows X) - int k)))"
proof -
  note lv = valid_input_labels_nonneg[OF assms(1,3)]
  let ?cs = "map (\<lambda>l. centroid X (nodes ! nat l)) labels"
  have "mapM (py_index cents) labels = Inr (map (\<lambda>l. map Fin (centroid X (nodes ! nat l))) labels)"
    using lv(2) by (intro mapM_map_Inr centroid_lookup[OF assms(2) valid_input_nodes[OF assms(1)]]) auto
  then have sel: "mapM (py_index cents) labels = Inr (map (map Fin) ?cs)"
    by (simp add: o_def)
  from assms(1) lv(1) have "labels \<noteq> []" by (auto simp: valid_input_def)
  then obtain l where "l \<in> set labels" by (cases labels) auto
  with lv(2) centroids_of_length[OF assms(2)] have ne: "cents \<noteq> []" by auto
  have len: "length ?cs = length (rows X)" using lv(1) by (simp add: nrows_def)
  have "(\<Sum>(x, c)\<leftarrow>zip (rows X) ?cs. sq_dist x c) =
          (\<Sum>i\<leftarrow>[0..<length (rows X)]. sq_dist (rows X ! i) (?cs ! i))"
    by (rule sum_list_zip_nth[OF len])
  also have "\<dots> = (\<Sum>i\<leftarrow>[0..<nrows X].
                          sq_dist (rows X ! i) (centroid X (nodes ! nat (labels ! i))))"
    unfolding nrows_def using lv(1) by (intro arg_cong[of _ _ sum_list] map_cong) (auto simp: nrows_def)
  finally have eq: "(\<Sum>(x, c)\<leftarrow>zip (rows X) ?cs. sq_dist x c) =
          (\<Sum>i\<leftarrow>[0..<nrows X].
                          sq_dist (rows X ! i) (centroid X (nodes ! nat (labels ! i))))" .
  have dev: "sq_dev X (map (map Fin) ?cs) =
          Fin (\<Sum>i\<leftarrow>[0..<nrows X].
                          sq_dist (rows X ! i) (centroid X (nodes ! nat (labels ! i))))"
    by (simp only: sq_dev_Fin eq)
  have "sigma_sq_of X cents labels k =
          Inr (fl_div_int (sq_dev X (map (map Fin) ?cs))
                 (int (ncols X) * (int (nrows X) - int k)))"
    unfolding sigma_sq_of_def sel using ne by (simp del: map_map fl_div_int.simps)
  then show ?thesis by (simp only: dev)
qed

lemma sizes_term_Fin:
  assumes "\<forall>s \<in> set sizes. 1 \<le> s"
  shows "fl_sum (map (\<lambda>s. fl_mul (Fin (real s)) (fl_log (Fin (real s)))) sizes) =
           Fin (\<Sum>s\<leftarrow>sizes. real s * ln (real s))"
  using assms by (induction sizes) auto


lemma inf_of_sign_count:
  assumes "1 \<le> N" "1 \<le> d"
  shows "inf_of_sign (- (real N * real d)) = NInf" "inf_of_sign (real N * real d) = PInf"
  using assms by (simp_all add: inf_of_sign_def mult_less_0_iff zero_less_mult_iff)

lemma inf_of_sign_two_pi: "inf_of_sign (2 * pi) = PInf"
  by (simp add: inf_of_sign_def)

lemma aic_value_zero:
  assumes "\<forall>s \<in> set sizes. 1 \<le> s" "1 \<le> N" "1 \<le> d"
  shows "aic_value N d sizes (Fin 0) = PInf"
  unfolding aic_value_def Let_def sizes_term_Fin[OF assms(1)]
  using assms(2) by (simp add: fl_sub_def inf_of_sign_count[OF assms(2,3)])

lemma aic_value_PInf:
  assumes "\<forall>s \<in> set sizes. 1 \<le> s" "1 \<le> N" "1 \<le> d"
  shows "aic_value N d sizes PInf = NInf"
  unfolding aic_value_def Let_def sizes_term_Fin[OF assms(1)]
  using assms(2) by (simp add: fl_sub_def inf_of_sign_two_pi inf_of_sign_count[OF assms(2,3)])

lemma aic_value_NaN: "aic_value N d sizes NaN = NaN"
proof -
  have "fl_add x NaN = NaN" for x by (cases x) auto
  then show ?thesis by (simp add: aic_value_def Let_def fl_sub_def)
qed

lemma cluster_sizes_pos:
  "build_clusters labels = Inr clusters \<Longrightarrow> \<forall>s \<in> set (map length clusters). 1 \<le> s"
proof -
  assume "build_clusters labels = Inr clusters"
  from build_clusters_partition(2)[OF this] have "\<forall>c \<in> set clusters. 1 \<le> length c"
    by (auto simp: Suc_le_eq)
  then show ?thesis by simp
qed

lemma compute_aic_stages:
  assumes "centroids_of X nodes = Inr cents" "labels_unique X cents cands = Inr labels"
    and "build_clusters labels = Inr clusters"
    and "sigma_sq_of X cents labels (length clusters) = Inr s"
  shows "compute_aic X nodes cands = Inr (aic_value (nrows X) (ncols X) (map length clusters) s)"
    and "score X cents labels = Inr (aic_value (nrows X) (ncols X) (map length clusters) s)"
    and "resolve X nodes cands = Inr labels"
  using assms by (simp_all add: compute_aic_def score_def resolve_def)

section \<open>The scorer\<close>

text \<open>
  C1, as the code has it. For every valid input the centroid table holds, for every Mapper
  node, \<open>np.mean\<close> of the rows of \<open>X\<close> listed in \<open>nodes_elements\<close> for that node; every
  hard label is a position of that table; and \<open>sigma_sq\<close> is \<open>np.sum\<close> of the squared
  differences between the rows of \<open>X\<close> and the table entries their labels select,
  divided by \<open>d * (N - k)\<close>. The centroid of a point is the one of the Mapper node its
  label names (overlapping membership); no centroid is recomputed from the hard clusters.
\<close>

theorem sigma_sq_uses_node_centroids:
  assumes "valid_input X nodes_elements X_idx_to_node_idxs"
  shows "\<exists>centroids labels clusters.
           centroids_of X nodes_elements = Inr centroids \<and>
           resolve X nodes_elements X_idx_to_node_idxs = Inr labels \<and>
           build_clusters labels = Inr clusters \<and>
           centroids =
             map (\<lambda>node_elements. mean_axis0 (ncols X) (map (\<lambda>e. rows X ! nat e) node_elements))
                 nodes_elements \<and>
           (\<forall>l \<in> set labels. 0 \<le> l \<and> l < int (length nodes_elements)) \<and>
           sigma_sq_of X centroids labels (length clusters) =
             Inr (fl_div_int
                    (sq_dev X
                       (map (\<lambda>l. mean_axis0 (ncols X)
                                    (map (\<lambda>e. rows X ! nat e) (nodes_elements ! nat l)))
                            labels))
                    (int (ncols X) * (int (nrows X) - int (length clusters))))"
proof -
  from resolve_valid[OF assms] obtain cents labels where
    c: "centroids_of X nodes_elements = Inr cents"
    and r: "resolve X nodes_elements X_idx_to_node_idxs = Inr labels"
    by blast
  from valid_input_clusters[OF assms r] obtain clusters where
    b: "build_clusters labels = Inr clusters" by blast
  have cents: "cents =
      map (\<lambda>node_elements. mean_axis0 (ncols X) (map (\<lambda>e. rows X ! nat e) node_elements))
          nodes_elements"
    using centroids_of_in_range[OF valid_input_nodes[OF assms]] c by simp
  note lv = valid_input_labels_nonneg[OF assms r]
  have rng: "\<forall>l \<in> set labels. 0 \<le> l \<and> l < int (length nodes_elements)"
    using lv(2) by blast
  have sel: "mapM (py_index cents) labels =
      Inr (map (\<lambda>l. mean_axis0 (ncols X) (map (\<lambda>e. rows X ! nat e) (nodes_elements ! nat l))) labels)"
  proof (rule mapM_map_Inr)
    fix l assume "l \<in> set labels"
    with rng have l: "0 \<le> l" "l < int (length nodes_elements)" by auto
    then have "py_index cents l = Inr (cents ! nat l)"
      by (intro py_index_nonneg) (auto simp: cents)
    also have "cents ! nat l =
        mean_axis0 (ncols X) (map (\<lambda>e. rows X ! nat e) (nodes_elements ! nat l))"
      using l by (simp add: cents)
    finally show "py_index cents l =
        Inr (mean_axis0 (ncols X) (map (\<lambda>e. rows X ! nat e) (nodes_elements ! nat l)))" .
  qed
  from assms lv(1) have "labels \<noteq> []" by (auto simp: valid_input_def)
  then obtain l where "l \<in> set labels" by (cases labels) auto
  with rng centroids_of_length[OF c] have ne: "cents \<noteq> []" by auto
  have s: "sigma_sq_of X cents labels (length clusters) =
             Inr (fl_div_int
                    (sq_dev X
                       (map (\<lambda>l. mean_axis0 (ncols X)
                                    (map (\<lambda>e. rows X ! nat e) (nodes_elements ! nat l)))
                            labels))
                    (int (ncols X) * (int (nrows X) - int (length clusters))))"
    unfolding sigma_sq_of_def sel using ne by (simp del: fl_div_int.simps)
  from c r b cents rng s show ?thesis by blast
qed

theorem sigma_sq_uses_node_centroids_witness:
  "valid_input X_three nodes_three cells_three \<and>
   (\<exists>centroids labels clusters.
      centroids_of X_three nodes_three = Inr centroids \<and>
      resolve X_three nodes_three cells_three = Inr labels \<and>
      build_clusters labels = Inr clusters \<and>
      centroids =
        map (\<lambda>node_elements. mean_axis0 (ncols X_three) (map (\<lambda>e. rows X_three ! nat e) node_elements))
            nodes_three \<and>
      (\<forall>l \<in> set labels. 0 \<le> l \<and> l < int (length nodes_three)) \<and>
      sigma_sq_of X_three centroids labels (length clusters) =
        Inr (fl_div_int
               (sq_dev X_three
                  (map (\<lambda>l. mean_axis0 (ncols X_three)
                               (map (\<lambda>e. rows X_three ! nat e) (nodes_three ! nat l)))
                       labels))
               (int (ncols X_three) * (int (nrows X_three) - int (length clusters)))))"
proof -
  have v: "valid_input X_three nodes_three cells_three"
    by (simp add: valid_input_def scenario_defs nrows_def rectangular_def)
  from v sigma_sq_uses_node_centroids[OF v] show ?thesis by - (intro conjI; assumption)
qed

text \<open>
  The claim as worded fails on three points on a line with two overlapping nodes: the
  middle point is a candidate of both nodes and is resolved to the first. The code's
  \<open>sigma_sq\<close> is \<open>3/4\<close>; with the means of the hard clusters \<open>{0, 1}\<close> and \<open>{2}\<close> it
  would be \<open>1/2\<close>.
\<close>

theorem sigma_sq_hard_centroid_counterexample:
  "valid_input X_three nodes_three cells_three \<and>
   centroids_of X_three nodes_three = Inr [[Fin (1 / 2)], [Fin (3 / 2)]] \<and>
   resolve X_three nodes_three cells_three = Inr [0, 0, 1] \<and>
   build_clusters [0, 0, 1] = Inr [[0, 1], [2]] \<and>
   sigma_sq_of X_three [[Fin (1 / 2)], [Fin (3 / 2)]] [0, 0, 1] 2 = Inr (Fin (3 / 4)) \<and>
   spec_sigma_sq X_three [[0, 1], [2]] = 1 / 2 \<and>
   sigma_sq_of X_three [[Fin (1 / 2)], [Fin (3 / 2)]] [0, 0, 1] 2
     \<noteq> Inr (Fin (spec_sigma_sq X_three [[0, 1], [2]]))"
proof -
  have v: "valid_input X_three nodes_three cells_three"
    by (simp add: valid_input_def scenario_defs nrows_def rectangular_def)
  have c: "centroids_of X_three nodes_three = Inr [[Fin (1 / 2)], [Fin (3 / 2)]]"
    by (simp add: scenario_defs compute_aic_unfold)
  have r: "resolve X_three nodes_three cells_three = Inr [0, 0, 1]"
    by (simp add: scenario_defs compute_aic_unfold)
  have b: "build_clusters [0, 0, 1] = Inr [[0, 1], [2]]"
    by (simp add: compute_aic_unfold)
  have s: "sigma_sq_of X_three [[Fin (1 / 2)], [Fin (3 / 2)]] [0, 0, 1] 2 = Inr (Fin (3 / 4))"
    by (simp add: scenario_defs compute_aic_unfold)
  have h: "spec_sigma_sq X_three [[0, 1], [2]] = 1 / 2"
    by (simp add: spec_sigma_sq_def centroid_def sq_dist_def scenario_defs nrows_def upt_rec)
  have n: "sigma_sq_of X_three [[Fin (1 / 2)], [Fin (3 / 2)]] [0, 0, 1] 2
     \<noteq> Inr (Fin (spec_sigma_sq X_three [[0, 1], [2]]))"
    unfolding s h by simp
  from v c r b s h n show ?thesis by - (intro conjI; assumption)
qed



text \<open>
  C3, as the code has it. The routine has no DegenerateClustering error and no check of
  \<open>N - k\<close>, of the cluster sizes or of \<open>sigma_sq\<close>: on every valid input it returns a
  float without raising. No retained cluster is empty and \<open>k \<le> N\<close>. The float can be
  finite only when \<open>N > k\<close> and \<open>sigma_sq\<close> is a finite positive number; with \<open>N > k\<close>
  and \<open>sigma_sq = 0\<close> it is \<open>+inf\<close>, and with \<open>N = k\<close> the variance is \<open>+inf\<close> or NaN
  and the score \<open>-inf\<close> or NaN.
\<close>

theorem degenerate_clustering_not_raised:
  assumes "valid_input X nodes_elements X_idx_to_node_idxs"
  shows "\<exists>centroids labels clusters sigma_sq aic.
           centroids_of X nodes_elements = Inr centroids \<and>
           resolve X nodes_elements X_idx_to_node_idxs = Inr labels \<and>
           build_clusters labels = Inr clusters \<and>
           (\<forall>c \<in> set clusters. c \<noteq> []) \<and> length clusters \<le> nrows X \<and>
           sigma_sq_of X centroids labels (length clusters) = Inr sigma_sq \<and>
           compute_aic X nodes_elements X_idx_to_node_idxs = Inr aic \<and>
           (is_fin aic \<longrightarrow>
              length clusters < nrows X \<and> is_fin sigma_sq \<and> fl_less (Fin 0) sigma_sq) \<and>
           (length clusters < nrows X \<and> sigma_sq = Fin 0 \<longrightarrow> aic = PInf) \<and>
           (length clusters = nrows X \<longrightarrow>
              sigma_sq = PInf \<and> aic = NInf \<or> sigma_sq = NaN \<and> aic = NaN)"
proof -
  from resolve_valid[OF assms] obtain cents labels where
    c: "centroids_of X nodes_elements = Inr cents"
    and l: "labels_unique X cents X_idx_to_node_idxs = Inr labels"
    and r: "resolve X nodes_elements X_idx_to_node_idxs = Inr labels"
    by blast
  from valid_input_clusters[OF assms r] obtain clusters where
    b: "build_clusters labels = Inr clusters" by blast
  define S where "S = (\<Sum>i\<leftarrow>[0..<nrows X].
      sq_dist (rows X ! i) (centroid X (nodes_elements ! nat (labels ! i))))"
  define den where "den = int (ncols X) * (int (nrows X) - int (length clusters))"
  define s where "s = fl_div_int (Fin S) den"
  define sizes where "sizes = map length clusters"
  define v where "v = aic_value (nrows X) (ncols X) sizes s"
  have sg: "sigma_sq_of X cents labels (length clusters) = Inr s"
    using sigma_sq_of_valid[OF assms c r, of "length clusters"] by (simp add: s_def S_def den_def)
  have a: "compute_aic X nodes_elements X_idx_to_node_idxs = Inr v"
    using compute_aic_stages(1)[OF c l b sg] by (simp add: v_def sizes_def)
  have S0: "0 \<le> S"
    unfolding S_def by (rule sum_list_nonneg) (auto simp: sq_dist_nonneg)
  from assms have N: "1 \<le> nrows X" and d: "1 \<le> ncols X" by (simp_all add: valid_input_def)
  have len: "length labels = nrows X"
    by (rule valid_input_labels_nonneg(1)[OF assms r])
  have ne: "\<forall>c \<in> set clusters. c \<noteq> []"
    by (rule build_clusters_partition(2)[OF b])
  have kN: "length clusters \<le> nrows X"
    using build_clusters_partition(6)[OF b] len by simp
  have pos: "\<forall>s \<in> set sizes. 1 \<le> s"
    unfolding sizes_def by (rule cluster_sizes_pos[OF b])
  have props: "(is_fin v \<longrightarrow> length clusters < nrows X \<and> is_fin s \<and> fl_less (Fin 0) s) \<and>
           (length clusters < nrows X \<and> s = Fin 0 \<longrightarrow> v = PInf) \<and>
           (length clusters = nrows X \<longrightarrow> s = PInf \<and> v = NInf \<or> s = NaN \<and> v = NaN)"
  proof (cases "length clusters < nrows X")
    case True
    with d have dpos: "0 < den" by (simp add: den_def)
    then have sF: "s = Fin (S / real_of_int den)" by (simp add: s_def)
    show ?thesis
    proof (cases "0 < S")
      case True
      with dpos have q: "0 < S / real_of_int den" by simp
      with \<open>length clusters < nrows X\<close> sF True dpos show ?thesis by simp
    next
      case False
      with S0 have "S = 0" by simp
      then have z: "s = Fin 0" by (simp add: sF)
      from aic_value_zero[OF pos N d] have "v = PInf" by (simp add: v_def z)
      with \<open>length clusters < nrows X\<close> z show ?thesis by simp
    qed
  next
    case False
    with kN have eq: "length clusters = nrows X" by simp
    then have d0: "den = 0" by (simp add: den_def)
    show ?thesis
    proof (cases "0 < S")
      case True
      with d0 have z: "s = PInf" by (simp add: s_def inf_of_sign_def)
      from aic_value_PInf[OF pos N d] have "v = NInf" by (simp add: v_def z)
      with eq z show ?thesis by simp
    next
      case False
      with S0 have "S = 0" by simp
      with d0 have z: "s = NaN" by (simp add: s_def inf_of_sign_def)
      have "v = NaN" by (simp add: v_def z aic_value_NaN)
      with eq z show ?thesis by simp
    qed
  qed
  from c r b ne kN sg a props show ?thesis by blast
qed

theorem degenerate_clustering_not_raised_witness:
  "valid_input X_flat nodes_pairs cells_pairs \<and>
   (\<exists>centroids labels clusters sigma_sq aic.
      centroids_of X_flat nodes_pairs = Inr centroids \<and>
      resolve X_flat nodes_pairs cells_pairs = Inr labels \<and>
      build_clusters labels = Inr clusters \<and>
      (\<forall>c \<in> set clusters. c \<noteq> []) \<and> length clusters \<le> nrows X_flat \<and>
      sigma_sq_of X_flat centroids labels (length clusters) = Inr sigma_sq \<and>
      compute_aic X_flat nodes_pairs cells_pairs = Inr aic \<and>
      (is_fin aic \<longrightarrow>
         length clusters < nrows X_flat \<and> is_fin sigma_sq \<and> fl_less (Fin 0) sigma_sq) \<and>
      (length clusters < nrows X_flat \<and> sigma_sq = Fin 0 \<longrightarrow> aic = PInf) \<and>
      (length clusters = nrows X_flat \<longrightarrow>
         sigma_sq = PInf \<and> aic = NInf \<or> sigma_sq = NaN \<and> aic = NaN))"
proof -
  have v: "valid_input X_flat nodes_pairs cells_pairs"
    by (simp add: valid_input_def scenario_defs nrows_def rectangular_def)
  from v degenerate_clustering_not_raised[OF v] show ?thesis by - (intro conjI; assumption)
qed

text \<open>
  The claim as worded fails on its own example, and when every point is its own cluster:
  \<open>X = [[0],[0],[10],[10]]\<close> with candidates \<open>[[0],[0],[1],[1]]\<close> has \<open>sigma_sq = 0\<close>
  and the routine returns \<open>+inf\<close>; two points in two clusters (\<open>N = k\<close>) give NaN. Neither
  raises.
\<close>

theorem degenerate_clustering_counterexample:
  "valid_input X_flat nodes_pairs cells_pairs \<and>
   resolve X_flat nodes_pairs cells_pairs = Inr [0, 0, 1, 1] \<and>
   sigma_sq_of X_flat [[Fin 0], [Fin 10]] [0, 0, 1, 1] 2 = Inr (Fin 0) \<and>
   compute_aic X_flat nodes_pairs cells_pairs = Inr PInf \<and>
   valid_input \<lparr>ncols = 1, rows = [[0], [1]]\<rparr> [[0], [1]] [[0], [1]] \<and>
   compute_aic \<lparr>ncols = 1, rows = [[0], [1]]\<rparr> [[0], [1]] [[0], [1]] = Inr NaN"
proof -
  have v: "valid_input X_flat nodes_pairs cells_pairs"
    by (simp add: valid_input_def scenario_defs nrows_def rectangular_def)
  have r: "resolve X_flat nodes_pairs cells_pairs = Inr [0, 0, 1, 1]"
    by (simp add: scenario_defs compute_aic_unfold)
  have s: "sigma_sq_of X_flat [[Fin 0], [Fin 10]] [0, 0, 1, 1] 2 = Inr (Fin 0)"
    by (simp add: scenario_defs compute_aic_unfold)
  have a: "compute_aic X_flat nodes_pairs cells_pairs = Inr PInf"
    by (simp add: scenario_defs compute_aic_unfold)
  have v2: "valid_input \<lparr>ncols = 1, rows = [[0], [1]]\<rparr> [[0], [1]] [[0], [1]]"
    by (simp add: valid_input_def nrows_def rectangular_def)
  have a2: "compute_aic \<lparr>ncols = 1, rows = [[0], [1]]\<rparr> [[0], [1]] [[0], [1]] = Inr NaN"
    by (simp add: compute_aic_unfold)
  from v r s a v2 a2 show ?thesis by - (intro conjI; assumption)
qed

subsection \<open>Failing stages\<close>

lemma py_index_Nil: "py_index [] i = Inl IndexError"
  by (simp add: py_index_def py_pos_def)

lemma label_of_take:
  "i < n \<Longrightarrow> label_of X cents (take n cands) i = label_of X cents cands i"
  by (auto simp: label_of_def py_index_def py_pos_def)

lemma labels_unique_take:
  "labels_unique X cents (take (nrows X) cands) = labels_unique X cents cands"
  unfolding labels_unique_def by (intro mapM_cong label_of_take) simp

lemma label_of_fails:
  assumes "length cands \<le> i \<or> (i < length cands \<and> cands ! i = [])"
  shows "\<exists>e. label_of X cents cands i = Inl e"
  using assms
proof
  assume "length cands \<le> i"
  then show ?thesis by (simp add: label_of_def py_index_nat_out)
next
  assume "i < length cands \<and> cands ! i = []"
  then show ?thesis
    by (simp add: label_of_def py_index_nat nearest_def argmin_def)
qed

lemma labels_unique_fails:
  assumes "i < nrows X" "label_of X cents cands i = Inl e"
  shows "\<exists>e'. labels_unique X cents cands = Inl e'"
  unfolding labels_unique_def
  using assms by (intro mapM_Inl_mem[where f = "label_of X cents cands" and x = i]) auto

lemma compute_aic_fails_in_labels:
  assumes "\<And>cents. \<exists>e. labels_unique X cents cands = Inl e"
  shows "\<exists>e. compute_aic X nodes cands = Inl e"
proof (cases "centroids_of X nodes")
  case (Inl e)
  then show ?thesis by (simp add: compute_aic_def)
next
  case (Inr cents)
  from assms[of cents] obtain e where "labels_unique X cents cands = Inl e" by blast
  with Inr show ?thesis by (simp add: compute_aic_def)
qed

lemma sigma_sq_of_fails:
  assumes "c \<in> set labels" "py_index cents c = Inl e"
  shows "\<exists>e'. sigma_sq_of X cents labels k = Inl e'"
proof -
  from mapM_Inl_mem[where f = "py_index cents", OF assms]
  obtain e' where "mapM (py_index cents) labels = Inl e'" by blast
  then show ?thesis by (simp add: sigma_sq_of_def)
qed

lemma score_fails:
  assumes "c \<in> set labels" "py_index cents c = Inl e"
  shows "\<exists>e'. score X cents labels = Inl e'"
proof (cases "build_clusters labels")
  case (Inl e1)
  then show ?thesis by (simp add: score_def)
next
  case (Inr clusters)
  from sigma_sq_of_fails[OF assms, of X "length clusters"] obtain e' where
    "sigma_sq_of X cents labels (length clusters) = Inl e'" by blast
  with Inr show ?thesis by (simp add: score_def)
qed

lemma out_of_range_fails:
  assumes "i < nrows X" "i < length cands" "c \<in> set (cands ! i)"
    and "int (length nodes) \<le> c \<or> c < - int (length nodes)"
  shows "\<exists>e. compute_aic X nodes cands = Inl e"
proof (cases "centroids_of X nodes")
  case (Inl e)
  then show ?thesis by (simp add: compute_aic_def)
next
  case (Inr cents)
  from centroids_of_length[OF Inr] assms(4)
  have bad: "py_index cents c = Inl IndexError" by (intro py_index_out) simp
  show ?thesis
  proof (cases "labels_unique X cents cands")
    case (Inl e)
    with Inr show ?thesis by (simp add: compute_aic_def)
  next
    case labels: (Inr labels)
    have len: "length labels = nrows X"
      by (rule labels_unique_candidates(1)[OF labels])
    have lab: "label_of X cents cands i = Inr (labels ! i)"
      using mapM_Inr_nth[OF labels[unfolded labels_unique_def], of i] assms(1) by simp
    have ps: "py_index cands (int i) = Inr (cands ! i)"
      by (rule py_index_nat[OF assms(2)])
    have one: "length (cands ! i) = 1"
    proof (rule ccontr)
      assume "length (cands ! i) \<noteq> 1"
      with lab ps have n: "nearest X cents i (cands ! i) = Inr (labels ! i)"
        by (simp add: label_of_def)
      have "point_dist X cents i c = Inl IndexError"
        using bad by (simp add: point_dist_def)
      from mapM_Inl_mem[where f = "point_dist X cents i", OF assms(3) this] obtain e' where
        "mapM (point_dist X cents i) (cands ! i) = Inl e'" by blast
      with n show False by (simp add: nearest_def)
    qed
    with assms(3) have "cands ! i = [c]"
      by (cases "cands ! i") auto
    with lab ps have "labels ! i = c" by (simp add: label_of_def)
    with len assms(1) have "c \<in> set labels" by (metis nth_mem)
    from score_fails[OF this bad, of X] obtain e' where "score X cents labels = Inl e'" by blast
    with Inr labels show ?thesis by (simp add: compute_aic_def)
  qed
qed

lemma compute_aic_valid:
  assumes "valid_input X nodes cands"
  shows "\<exists>aic. compute_aic X nodes cands = Inr aic"
proof -
  from resolve_valid[OF assms] obtain cents labels where
    c: "centroids_of X nodes = Inr cents"
    and l: "labels_unique X cents cands = Inr labels"
    and r: "resolve X nodes cands = Inr labels"
    by blast
  from valid_input_clusters[OF assms r] obtain clusters where
    b: "build_clusters labels = Inr clusters" by blast
  from compute_aic_stages(1)[OF c l b sigma_sq_of_valid[OF assms c r]] show ?thesis by blast
qed

section \<open>Malformed inputs\<close>

text \<open>
  C4, as the code has it. The routine validates nothing and has no InvalidInput error.
  It does fail, with the error of the interpreter or of numpy, whenever the candidate
  sequence has fewer entries than \<open>X\<close> has rows, or the candidate list of one of the
  \<open>N\<close> points is empty (\<open>np.argmin\<close> of an empty sequence). Entries of the candidate
  sequence beyond the first \<open>N\<close> are never read: the result is the one for the first
  \<open>N\<close> entries. \<open>N = 0\<close> and \<open>d = 0\<close> are not rejected.
\<close>

theorem malformed_candidates:
  "((length X_idx_to_node_idxs < nrows X \<or>
     (\<exists>i<nrows X. i < length X_idx_to_node_idxs \<and> X_idx_to_node_idxs ! i = [])) \<longrightarrow>
    (\<exists>e. compute_aic X nodes_elements X_idx_to_node_idxs = Inl e)) \<and>
   compute_aic X nodes_elements (take (nrows X) X_idx_to_node_idxs) =
     compute_aic X nodes_elements X_idx_to_node_idxs"
proof
  show "(length X_idx_to_node_idxs < nrows X \<or>
     (\<exists>i<nrows X. i < length X_idx_to_node_idxs \<and> X_idx_to_node_idxs ! i = [])) \<longrightarrow>
    (\<exists>e. compute_aic X nodes_elements X_idx_to_node_idxs = Inl e)"
  proof
    assume "length X_idx_to_node_idxs < nrows X \<or>
     (\<exists>i<nrows X. i < length X_idx_to_node_idxs \<and> X_idx_to_node_idxs ! i = [])"
    then obtain i where i: "i < nrows X"
      and bad: "length X_idx_to_node_idxs \<le> i \<or>
                (i < length X_idx_to_node_idxs \<and> X_idx_to_node_idxs ! i = [])"
      by auto
    have "\<exists>e. labels_unique X cents X_idx_to_node_idxs = Inl e" for cents
      using label_of_fails[OF bad, of X cents] labels_unique_fails[OF i] by blast
    then show "\<exists>e. compute_aic X nodes_elements X_idx_to_node_idxs = Inl e"
      by (rule compute_aic_fails_in_labels)
  qed
  show "compute_aic X nodes_elements (take (nrows X) X_idx_to_node_idxs) =
     compute_aic X nodes_elements X_idx_to_node_idxs"
    by (simp add: compute_aic_def labels_unique_take cong: sum.case_cong)
qed

theorem malformed_candidates_witness:
  "length [[0], [0 :: int]] < nrows X_line \<and>
   (\<exists>e. compute_aic X_line nodes_pairs [[0], [0]] = Inl e) \<and>
   compute_aic X_line nodes_pairs [[0], [0]] = Inl IndexError \<and>
   compute_aic X_line nodes_pairs [[0], [], [1], [1]] = Inl ValueError"
proof -
  have s: "length [[0], [0 :: int]] < nrows X_line"
    by (simp add: scenario_defs nrows_def)
  from malformed_candidates[of "[[0], [0]]" X_line nodes_pairs] s
  have e: "\<exists>e. compute_aic X_line nodes_pairs [[0], [0]] = Inl e" by blast
  have i: "compute_aic X_line nodes_pairs [[0], [0]] = Inl IndexError"
    by (simp add: scenario_defs compute_aic_unfold)
  have v: "compute_aic X_line nodes_pairs [[0], [], [1], [1]] = Inl ValueError"
    by (simp add: scenario_defs compute_aic_unfold)
  from s e i v show ?thesis by - (intro conjI; assumption)
qed

text \<open>
  The claim as worded fails: five candidate lists for four points give the score of the
  first four; an array with no row, and an array with no column, give NaN. None raises.
\<close>

theorem invalid_input_counterexample:
  "length [[0], [0], [1], [1], [0 :: int]] \<noteq> nrows X_line \<and>
   compute_aic X_line nodes_pairs [[0], [0], [1], [1], [0]] =
     Inr (Fin (8 * ln 2 + (- (4 * ln pi) - 8 * ln 4) - 10)) \<and>
   compute_aic \<lparr>ncols = 1, rows = []\<rparr> [] [] = Inr NaN \<and>
   compute_aic \<lparr>ncols = 0, rows = [[], []]\<rparr> [[0, 1]] [[0], [0]] = Inr NaN"
proof -
  have l: "length [[0], [0], [1], [1], [0 :: int]] \<noteq> nrows X_line"
    by (simp add: scenario_defs nrows_def)
  have a: "compute_aic X_line nodes_pairs [[0], [0], [1], [1], [0]] =
     Inr (Fin (8 * ln 2 + (- (4 * ln pi) - 8 * ln 4) - 10))"
    by (simp add: scenario_defs compute_aic_unfold)
  have b: "compute_aic \<lparr>ncols = 1, rows = []\<rparr> [] [] = Inr NaN"
    by (simp add: compute_aic_unfold)
  have c: "compute_aic \<lparr>ncols = 0, rows = [[], []]\<rparr> [[0, 1]] [[0], [0]] = Inr NaN"
    by (simp add: compute_aic_unfold)
  from l a b c show ?thesis by - (intro conjI; assumption)
qed

section \<open>Identifiers as indices\<close>

text \<open>
  C9, as the code has it. On a valid input (every identifier \<open>c\<close> with
  \<open>0 \<le> c < len(nodes_elements)\<close>) no lookup fails and a value is returned. An identifier
  \<open>c \<ge> len(nodes_elements)\<close> or \<open>c < -len(nodes_elements)\<close> in the candidate list of one
  of the \<open>N\<close> points makes the routine fail. An identifier in between, from
  \<open>-len(nodes_elements)\<close> to \<open>-1\<close>, is not always rejected: the example that follows
  returns a score.
\<close>

theorem identifiers_as_indices:
  "(valid_input X nodes_elements X_idx_to_node_idxs \<longrightarrow>
      (\<exists>aic. compute_aic X nodes_elements X_idx_to_node_idxs = Inr aic)) \<and>
   (i < nrows X \<and> i < length X_idx_to_node_idxs \<and> c \<in> set (X_idx_to_node_idxs ! i) \<and>
    (int (length nodes_elements) \<le> c \<or> c < - int (length nodes_elements)) \<longrightarrow>
      (\<exists>e. compute_aic X nodes_elements X_idx_to_node_idxs = Inl e))"
  using compute_aic_valid[of X nodes_elements X_idx_to_node_idxs]
    out_of_range_fails[of i X X_idx_to_node_idxs c nodes_elements]
  by blast

theorem identifiers_as_indices_witness:
  "valid_input X_line nodes_pairs cells_pairs \<and>
   (\<exists>aic. compute_aic X_line nodes_pairs cells_pairs = Inr aic) \<and>
   (2 :: nat) < nrows X_line \<and> (2 :: int) \<in> set ([[0], [0], [2], [1]] ! 2) \<and>
   int (length nodes_pairs) \<le> 2 \<and>
   (\<exists>e. compute_aic X_line nodes_pairs [[0], [0], [2], [1]] = Inl e) \<and>
   compute_aic X_line nodes_pairs [[0], [0], [2], [1]] = Inl IndexError"
proof -
  have v: "valid_input X_line nodes_pairs cells_pairs"
    by (simp add: valid_input_def scenario_defs nrows_def rectangular_def)
  from identifiers_as_indices[of X_line nodes_pairs cells_pairs] v
  have a: "\<exists>aic. compute_aic X_line nodes_pairs cells_pairs = Inr aic" by blast
  have n: "(2 :: nat) < nrows X_line" by (simp add: scenario_defs nrows_def)
  have m: "(2 :: int) \<in> set ([[0], [0], [2], [1]] ! 2)" by simp
  have g: "int (length nodes_pairs) \<le> 2" by (simp add: scenario_defs)
  have k: "(2 :: nat) < length [[0], [0], [2], [1 :: int]]" by simp
  from identifiers_as_indices[of X_line nodes_pairs "[[0], [0], [2], [1]]" 2 2] n m g k
  have e: "\<exists>e. compute_aic X_line nodes_pairs [[0], [0], [2], [1]] = Inl e" by blast
  have x: "compute_aic X_line nodes_pairs [[0], [0], [2], [1]] = Inl IndexError"
    by (simp add: scenario_defs compute_aic_unfold)
  from v a n m g e x show ?thesis by - (intro conjI; assumption)
qed

text \<open>
  The claim as worded fails for the identifier \<open>-1\<close>, which is outside
  \<open>0 \<le> c < len(nodes_elements)\<close>: on this input the lookups succeed from the end of
  the table and of the cluster list, the points labelled \<open>-1\<close> join the cluster of label
  \<open>0\<close>, and a finite score is returned.
\<close>

theorem negative_identifier_counterexample:
  "\<not> (0 \<le> (- 1 :: int)) \<and>
   resolve X_line nodes_pairs [[0], [0], [- 1], [- 1]] = Inr [0, 0, - 1, - 1] \<and>
   build_clusters [0, 0, - 1, - 1] = Inr [[0, 1, 2, 3]] \<and>
   compute_aic X_line nodes_pairs [[0], [0], [- 1], [- 1]] = Inr (Fin (- 7 - 4 * ln (2 * pi / 3)))"
proof -
  have n: "\<not> (0 \<le> (- 1 :: int))" by simp
  have r: "resolve X_line nodes_pairs [[0], [0], [- 1], [- 1]] = Inr [0, 0, - 1, - 1]"
    by (simp add: scenario_defs compute_aic_unfold)
  have b: "build_clusters [0, 0, - 1, - 1] = Inr [[0, 1, 2, 3]]"
    by (simp add: compute_aic_unfold)
  have a: "compute_aic X_line nodes_pairs [[0], [0], [- 1], [- 1]] =
      Inr (Fin (- 7 - 4 * ln (2 * pi / 3)))"
    by (simp add: scenario_defs compute_aic_unfold)
  from n r b a show ?thesis by - (intro conjI; assumption)
qed

subsection \<open>Renamed labels\<close>

lemma aic_value_sizes_cong:
  assumes "length sizes' = length sizes"
    and "fl_sum (map (\<lambda>s. fl_mul (Fin (real s)) (fl_log (Fin (real s)))) sizes') =
         fl_sum (map (\<lambda>s. fl_mul (Fin (real s)) (fl_log (Fin (real s)))) sizes)"
  shows "aic_value N d sizes' s = aic_value N d sizes s"
  unfolding aic_value_def Let_def assms ..

lemma renamed_cluster_sizes:
  fixes g :: "nat \<Rightarrow> 'a::comm_monoid_add"
  assumes "inj_on f (set labels)" "\<forall>l \<in> set labels. 0 \<le> l \<and> 0 \<le> f l"
    and "build_clusters labels = Inr clusters" "build_clusters (map f labels) = Inr clusters'"
  shows "(\<Sum>c\<leftarrow>clusters'. g (length c)) = (\<Sum>c\<leftarrow>clusters. g (length c))"
proof -
  have n: "\<forall>l \<in> set labels. 0 \<le> l" and n': "\<forall>l \<in> set (map f labels). 0 \<le> l"
    using assms(2) by auto
  have "(\<Sum>c\<leftarrow>clusters'. g (length c)) =
          (\<Sum>l \<in> set (map f labels). g (count_list (map f labels) l))"
    by (rule sum_list_cluster_sizes[OF n' assms(4)])
  also have "\<dots> = (\<Sum>l \<in> f ` set labels. g (count_list (map f labels) l))"
    by simp
  also have "\<dots> = (\<Sum>l \<in> set labels. g (count_list (map f labels) (f l)))"
    using assms(1) by (simp add: sum.reindex)
  also have "\<dots> = (\<Sum>l \<in> set labels. g (count_list labels l))"
    using assms(1) by (intro sum.cong refl arg_cong[of _ _ g] count_list_inj_map)
  also have "\<dots> = (\<Sum>c\<leftarrow>clusters. g (length c))"
    by (rule sum_list_cluster_sizes[OF n assms(3), symmetric])
  finally show ?thesis .
qed

lemma renamed_sigma_sq:
  assumes "labels \<noteq> []"
    and "\<forall>l \<in> set labels. py_index cents' (f l) = py_index cents l"
  shows "sigma_sq_of X cents' (map f labels) k = sigma_sq_of X cents labels k"
proof -
  have m: "mapM (py_index cents') (map f labels) = mapM (py_index cents) labels"
    unfolding mapM_map using assms(2) by (intro mapM_cong) auto
  show ?thesis
  proof (cases "mapM (py_index cents) labels")
    case (Inl e)
    with m show ?thesis by (simp add: sigma_sq_of_def)
  next
    case (Inr sel)
    from assms(1) obtain l where l: "l \<in> set labels" by (cases labels) auto
    from mapM_Inr_nth[OF Inr] l obtain y where y: "py_index cents l = Inr y"
      by (auto simp: in_set_conv_nth)
    then have "cents \<noteq> []" by (auto simp: py_index_Nil)
    moreover from y assms(2) l have "py_index cents' (f l) = Inr y" by simp
    then have "cents' \<noteq> []" by (auto simp: py_index_Nil)
    ultimately show ?thesis using m Inr by (simp add: sigma_sq_of_def)
  qed
qed

section \<open>Renaming the labels\<close>

text \<open>
  C8, as the code has it. The labels are positions in the centroid table, so the score
  depends on which centroid each label selects. Renaming the labels injectively, with
  labels before and after non-negative, leaves the score unchanged provided each renamed
  label selects in the table used after renaming what the old label selected in the table
  used before (the table is re-indexed with the labels). Arithmetic is exact.
\<close>

theorem score_renaming:
  assumes "labels \<noteq> []" "inj_on f (set labels)"
    and "\<forall>l \<in> set labels. 0 \<le> l \<and> 0 \<le> f l \<and> py_index centroids' (f l) = py_index centroids l"
  shows "score X centroids' (map f labels) = score X centroids labels"
proof -
  have n: "\<forall>l \<in> set labels. 0 \<le> l" and n': "\<forall>l \<in> set (map f labels). 0 \<le> l"
    and nn: "\<forall>l \<in> set labels. 0 \<le> l \<and> 0 \<le> f l"
    and p: "\<forall>l \<in> set labels. py_index centroids' (f l) = py_index centroids l"
    using assms(3) by auto
  from build_clusters_nonneg[OF n] obtain clusters where
    b: "build_clusters labels = Inr clusters" by blast
  from build_clusters_nonneg[OF n'] obtain clusters' where
    b': "build_clusters (map f labels) = Inr clusters'" by blast
  have "(\<Sum>c\<leftarrow>clusters'. (\<lambda>_. 1 :: nat) (length c)) = (\<Sum>c\<leftarrow>clusters. (\<lambda>_. 1 :: nat) (length c))"
    by (rule renamed_cluster_sizes[OF assms(2) nn b b'])
  then have k: "length clusters' = length clusters"
    by (simp add: sum_list_triv)
  have "(\<Sum>c\<leftarrow>clusters'. real (length c) * ln (real (length c))) =
          (\<Sum>c\<leftarrow>clusters. real (length c) * ln (real (length c)))"
    by (rule renamed_cluster_sizes[OF assms(2) nn b b'])
  then have t: "fl_sum (map (\<lambda>s. fl_mul (Fin (real s)) (fl_log (Fin (real s)))) (map length clusters')) =
         fl_sum (map (\<lambda>s. fl_mul (Fin (real s)) (fl_log (Fin (real s)))) (map length clusters))"
    unfolding sizes_term_Fin[OF cluster_sizes_pos[OF b']] sizes_term_Fin[OF cluster_sizes_pos[OF b]]
    by (simp add: o_def)
  have a: "aic_value (nrows X) (ncols X) (map length clusters') s =
             aic_value (nrows X) (ncols X) (map length clusters) s" for s
    by (rule aic_value_sizes_cong[OF _ t]) (simp add: k)
  have s: "sigma_sq_of X centroids' (map f labels) (length clusters') =
             sigma_sq_of X centroids labels (length clusters)"
    unfolding k by (rule renamed_sigma_sq[OF assms(1) p])
  show ?thesis
    unfolding score_def b b' by (simp add: s a cong: sum.case_cong)
qed

theorem score_renaming_witness:
  "[0, 0, 1, 1 :: int] \<noteq> [] \<and> inj_on (\<lambda>l. 1 - l) (set [0, 0, 1, 1 :: int]) \<and>
   score X_line [[Fin (19 / 2)], [Fin (1 / 2)]] (map (\<lambda>l. 1 - l) [0, 0, 1, 1]) =
     score X_line [[Fin (1 / 2)], [Fin (19 / 2)]] [0, 0, 1, 1] \<and>
   score X_line [[Fin (19 / 2)], [Fin (1 / 2)]] [1, 1, 0, 0] =
     Inr (Fin (8 * ln 2 + (- (4 * ln pi) - 8 * ln 4) - 10))"
proof -
  have ne: "[0, 0, 1, 1 :: int] \<noteq> []" by simp
  have inj: "inj_on (\<lambda>l. 1 - l) (set [0, 0, 1, 1 :: int])" by (simp add: inj_on_def)
  have p: "\<forall>l \<in> set [0, 0, 1, 1 :: int]. 0 \<le> l \<and> 0 \<le> 1 - l \<and>
      py_index [[Fin (19 / 2)], [Fin (1 / 2)]] (1 - l) = py_index [[Fin (1 / 2)], [Fin (19 / 2)]] l"
    by (simp add: py_index_def py_pos_def)
  have e: "score X_line [[Fin (19 / 2)], [Fin (1 / 2)]] (map (\<lambda>l. 1 - l) [0, 0, 1, 1]) =
     score X_line [[Fin (1 / 2)], [Fin (19 / 2)]] [0, 0, 1, 1]"
    by (rule score_renaming[OF ne inj p])
  have "score X_line [[Fin (1 / 2)], [Fin (19 / 2)]] [0, 0, 1, 1] =
     Inr (Fin (8 * ln 2 + (- (4 * ln pi) - 8 * ln 4) - 10))"
    by (simp add: scenario_defs compute_aic_unfold)
  with e have v: "score X_line [[Fin (19 / 2)], [Fin (1 / 2)]] [1, 1, 0, 0] =
     Inr (Fin (8 * ln 2 + (- (4 * ln pi) - 8 * ln 4) - 10))"
    by simp
  from ne inj e v show ?thesis by - (intro conjI; assumption)
qed

text \<open>
  The claim as worded fails: with the centroid table left as it is, exchanging the labels
  \<open>0\<close> and \<open>1\<close> of \<open>[0, 0, 1, 1]\<close> keeps the partition and changes the score, because
  every point is now measured against the other centroid. The same happens through the
  whole routine when the candidate identifiers are exchanged.
\<close>

theorem score_renaming_counterexample:
  "inj_on (\<lambda>l. 1 - l) (set [0, 0, 1, 1 :: int]) \<and>
   map (\<lambda>l. 1 - l) [0, 0, 1, 1 :: int] = [1, 1, 0, 0] \<and>
   build_clusters [0, 0, 1, 1] = Inr [[0, 1], [2, 3]] \<and>
   build_clusters [1, 1, 0, 0] = Inr [[2, 3], [0, 1]] \<and>
   score X_line [[Fin (1 / 2)], [Fin (19 / 2)]] [0, 0, 1, 1] =
     Inr (Fin (8 * ln 2 + (- (4 * ln pi) - 8 * ln 4) - 10)) \<and>
   score X_line [[Fin (1 / 2)], [Fin (19 / 2)]] [1, 1, 0, 0] =
     Inr (Fin (8 * ln 2 + (- (4 * ln (325 * pi)) - 8 * ln 4) - 10)) \<and>
   score X_line [[Fin (1 / 2)], [Fin (19 / 2)]] [1, 1, 0, 0] \<noteq>
     score X_line [[Fin (1 / 2)], [Fin (19 / 2)]] [0, 0, 1, 1] \<and>
   compute_aic X_line nodes_pairs [[1], [1], [0], [0]] \<noteq> compute_aic X_line nodes_pairs cells_pairs"
proof -
  have inj: "inj_on (\<lambda>l. 1 - l) (set [0, 0, 1, 1 :: int])" by (simp add: inj_on_def)
  have m: "map (\<lambda>l. 1 - l) [0, 0, 1, 1 :: int] = [1, 1, 0, 0]" by simp
  have b0: "build_clusters [0, 0, 1, 1] = Inr [[0, 1], [2, 3]]"
    by (simp add: compute_aic_unfold)
  have b1: "build_clusters [1, 1, 0, 0] = Inr [[2, 3], [0, 1]]"
    by (simp add: build_clusters_def enumerate_eq_zip upt_rec py_pos_def Let_def eval_nat_numeral)
  have s0: "score X_line [[Fin (1 / 2)], [Fin (19 / 2)]] [0, 0, 1, 1] =
     Inr (Fin (8 * ln 2 + (- (4 * ln pi) - 8 * ln 4) - 10))"
    by (simp add: scenario_defs compute_aic_unfold)
  have s1: "score X_line [[Fin (1 / 2)], [Fin (19 / 2)]] [1, 1, 0, 0] =
     Inr (Fin (8 * ln 2 + (- (4 * ln (325 * pi)) - 8 * ln 4) - 10))"
    by (simp add: score_def b1 sigma_sq_of_def py_index_def py_pos_def sq_dev_def fl_sub_def
        aic_value_def nrows_def scenario_defs)
  have d: "score X_line [[Fin (1 / 2)], [Fin (19 / 2)]] [1, 1, 0, 0] \<noteq>
     score X_line [[Fin (1 / 2)], [Fin (19 / 2)]] [0, 0, 1, 1]"
    unfolding s0 s1 by simp
  have c: "centroids_of X_line nodes_pairs = Inr [[Fin (1 / 2)], [Fin (19 / 2)]]"
    by (simp add: scenario_defs compute_aic_unfold)
  have l0: "labels_unique X_line [[Fin (1 / 2)], [Fin (19 / 2)]] cells_pairs = Inr [0, 0, 1, 1]"
    by (simp add: scenario_defs compute_aic_unfold)
  have l1: "labels_unique X_line [[Fin (1 / 2)], [Fin (19 / 2)]] [[1], [1], [0], [0]] = Inr [1, 1, 0, 0]"
    by (simp add: scenario_defs compute_aic_unfold)
  have w: "compute_aic X_line nodes_pairs [[1], [1], [0], [0]] \<noteq> compute_aic X_line nodes_pairs cells_pairs"
    using d by (simp add: compute_aic_def c l0 l1)
  from inj m b0 b1 s0 s1 d w show ?thesis by - (intro conjI; assumption)
qed

end
